theory Spec2Isabelle
  imports Main "HOL-Library.Signed_Division"
begin

section \<open>Integers, points, sizes and boxes\<close>

text \<open>
  The C++ types \<open>i32\<close> and \<open>i16\<close> are modelled as \<open>int\<close>. Division of two \<open>i32\<close>
  values truncates towards zero in C++, which is \<open>sdiv\<close> on \<open>int\<close>. Where the source
  narrows a value explicitly (\<open>saturate_cast<i16>\<close>, the \<open>i16 +=\<close> of the offset setters,
  the cast \<open>i32(...)\<close> of a \<open>usz\<close> expression) the narrowing is written out.
\<close>

definition i16_wrap :: "int \<Rightarrow> int" where
  "i16_wrap v = (v + 32768) mod 65536 - 32768"

definition i32_wrap :: "int \<Rightarrow> int" where
  "i32_wrap v = (v + 2147483648) mod 4294967296 - 2147483648"

definition saturate_cast_i16 :: "int \<Rightarrow> int" where
  "saturate_cast_i16 v = max (- 32768) (min 32767 v)"

text \<open>
  Modelled from the spec: the types \<open>xy\<close>, \<open>Size\<close> and \<open>AABB\<close> are declared in a module of
  the repository that is not among the sources (only their uses are). The spec gives
  them as a pair of integers, a width/height pair, and an origin with a size.
\<close>

record xy =
  xy_x :: int
  xy_y :: int

record Size =
  wd :: int
  ht :: int

record AABB =
  origin :: xy
  box_size :: Size

definition AABB_width :: "AABB \<Rightarrow> int" where
  "AABB_width b = wd (box_size b)"

section \<open>Position\<close>

datatype Anchor =
  North | NorthEast | East | SouthEast | South | SouthWest | West | NorthWest | Center

definition Anchor_Default :: Anchor where
  "Anchor_Default = SouthWest"

text \<open>\<open>Centered\<close> is \<open>std::numeric_limits<i32>::min()\<close>.\<close>

definition Centered :: int where
  "Centered = - 2147483648"

record Position =
  base :: xy
  xadjust :: int
  yadjust :: int
  anchor :: Anchor

text \<open>The constructor \<open>Position(x, y, a)\<close> and the three centring factories.\<close>

definition Position_at :: "int \<Rightarrow> int \<Rightarrow> Anchor \<Rightarrow> Position" where
  "Position_at px py a =
     \<lparr>base = \<lparr>xy_x = px, xy_y = py\<rparr>, xadjust = 0, yadjust = 0, anchor = a\<rparr>"

definition HCenter :: "int \<Rightarrow> Anchor \<Rightarrow> Position" where
  "HCenter py a = Position_at Centered py a"

definition VCenter :: "int \<Rightarrow> Anchor \<Rightarrow> Position" where
  "VCenter px a = Position_at px Centered a"

definition Position_Center :: "Anchor \<Rightarrow> Position" where
  "Position_Center a = Position_at Centered Centered a"

definition anchor_to :: "Anchor \<Rightarrow> Position \<Rightarrow> Position" where
  "anchor_to a p = p\<lparr>anchor := a\<rparr>"

definition hoffset :: "int \<Rightarrow> Position \<Rightarrow> Position" where
  "hoffset offset p = p\<lparr>xadjust := i16_wrap (xadjust p + saturate_cast_i16 offset)\<rparr>"

definition voffset :: "int \<Rightarrow> Position \<Rightarrow> Position" where
  "voffset offset p = p\<lparr>yadjust := i16_wrap (yadjust p + saturate_cast_i16 offset)\<rparr>"

text \<open>The lambda \<open>Clamp\<close> of \<open>Position::relative\<close>.\<close>

definition Clamp :: "int \<Rightarrow> int \<Rightarrow> int \<Rightarrow> int" where
  "Clamp val obj_size total_size =
     (if val = Centered then (total_size - obj_size) sdiv 2
      else if val < 0 then total_size + val - obj_size
      else val)"

text \<open>
  The lambda \<open>Adjust\<close>: it captures the coordinates computed so far (here the argument
  \<open>c\<close>) and the position's base, and subtracts on the axes that are not centred.
\<close>

definition Adjust :: "Position \<Rightarrow> xy \<Rightarrow> int \<Rightarrow> int \<Rightarrow> xy" where
  "Adjust p c xa ya =
     \<lparr>xy_x = (if xy_x (base p) \<noteq> Centered then xy_x c - xa else xy_x c),
      xy_y = (if xy_y (base p) \<noteq> Centered then xy_y c - ya else xy_y c)\<rparr>"

definition relative :: "Position \<Rightarrow> xy \<Rightarrow> Size \<Rightarrow> Size \<Rightarrow> xy" where
  "relative p parent parent_size object_size =
     (let sx = wd parent_size; sy = ht parent_size;
          obj_wd = wd object_size; obj_ht = ht object_size;
          c = \<lparr>xy_x = xy_x parent + Clamp (xy_x (base p)) obj_wd sx + xadjust p,
               xy_y = xy_y parent + Clamp (xy_y (base p)) obj_ht sy + yadjust p\<rparr>
      in case anchor p of
           North \<Rightarrow> Adjust p c (obj_wd sdiv 2) obj_ht
         | NorthEast \<Rightarrow> Adjust p c obj_wd obj_ht
         | East \<Rightarrow> Adjust p c obj_wd (obj_ht sdiv 2)
         | SouthEast \<Rightarrow> Adjust p c obj_wd 0
         | South \<Rightarrow> Adjust p c (obj_wd sdiv 2) 0
         | SouthWest \<Rightarrow> c
         | West \<Rightarrow> Adjust p c 0 (obj_ht sdiv 2)
         | NorthWest \<Rightarrow> Adjust p c 0 obj_ht
         | Center \<Rightarrow> Adjust p c (obj_wd sdiv 2) (obj_ht sdiv 2))"

text \<open>The overload taking the parent's box, and \<open>Position::absolute\<close>.\<close>

definition relative_box :: "Position \<Rightarrow> AABB \<Rightarrow> Size \<Rightarrow> xy" where
  "relative_box p parent_box object_size =
     relative p (origin parent_box) (box_size parent_box) object_size"

definition absolute :: "Position \<Rightarrow> Size \<Rightarrow> Size \<Rightarrow> xy" where
  "absolute p screen_size object_size =
     relative p \<lparr>xy_x = 0, xy_y = 0\<rparr> screen_size object_size"

section \<open>Widgets\<close>

text \<open>
  \<open>Widget\<close> extends \<open>Element\<close> (the bounding box). The non-owning \<open>parent\<close> pointer is only
  ever read as \<open>parent->bounding_box\<close>; the functions that read it take the parent's box
  as an argument.
\<close>

record Widget =
  bounding_box :: AABB
  hovered :: bool
  selectable :: bool
  selected :: bool
  visible :: bool
  needs_refresh :: bool
  pos :: Position

definition reset_properties :: "'a Widget_scheme \<Rightarrow> 'a Widget_scheme" where
  "reset_properties w = w\<lparr>hovered := False, selected := False\<rparr>"

definition rpos :: "AABB \<Rightarrow> 'a Widget_scheme \<Rightarrow> xy" where
  "rpos parent_box w = relative_box (pos w) parent_box (box_size (bounding_box w))"

definition rbox :: "AABB \<Rightarrow> 'a Widget_scheme \<Rightarrow> AABB" where
  "rbox parent_box w = \<lparr>origin = rpos parent_box w, box_size = box_size (bounding_box w)\<rparr>"

section \<open>Shaped text and the text box\<close>

text \<open>
  Modelled from the spec: \<open>ShapedText\<close> and its \<open>Cluster\<close> are declared by the renderer,
  outside the sources. The fields are the values the widgets read: \<open>i32(label.width)\<close>,
  \<open>i32(text.depth)\<close>, \<open>text.size()\<close>, and per cluster the logical index and the pixel
  offset (both \<open>i32\<close>: the two \<open>return\<close>s of the lambda in \<open>event_click\<close> have one type).
\<close>

record ShapedText =
  width :: int
  depth :: int
  shaped_size :: Size

record Cluster =
  index :: int
  xoffs :: int

record TextBox = Widget +
  label :: ShapedText
  placeholder :: ShapedText
  padding :: int
  min_wd :: int
  min_ht :: int
  cursor_offs :: int

definition UpdateText :: "ShapedText \<Rightarrow> 'a TextBox_scheme \<Rightarrow> 'a TextBox_scheme" where
  "UpdateText new_text tb = tb\<lparr>label := new_text, needs_refresh := True\<rparr>"

definition TextPos :: "AABB \<Rightarrow> 'a TextBox_scheme \<Rightarrow> ShapedText \<Rightarrow> xy" where
  "TextPos parent_box tb t =
     relative_box (voffset (depth t) (Position_Center Anchor_Default))
       (rbox parent_box tb) (shaped_size t)"

section \<open>Input\<close>

record MouseState =
  mouse_pos :: xy
  left :: bool
  right :: bool
  middle :: bool

datatype Keycode =
  SDLK_BACKSPACE | SDLK_DELETE | SDLK_LEFT | SDLK_RIGHT | SDLK_HOME | SDLK_END
  | SDLK_V | SDLK_INSERT | SDLK_other nat

text \<open>
  Of the modifier mask only the two tests the code makes are kept:
  \<open>mod & SDL_KMOD_CTRL\<close> and \<open>mod & SDL_KMOD_SHIFT\<close>.
\<close>

record Event =
  key :: Keycode
  mod_ctrl :: bool
  mod_shift :: bool

text \<open>Code points of a \<open>std::u32string\<close> are natural numbers.\<close>

type_synonym u32string = "nat list"

record InputSystem =
  was_selected :: bool
  text_input :: u32string
  kb_events :: "Event list"
  mouse :: MouseState
  quit :: bool

section \<open>TextEdit\<close>

datatype error =
  PrevOfBegin
  | OutOfRange
  | ScaleOutOfBounds

text \<open>
  The interpolation \<open>i32(std::lerp(x1, x2, f32(n) / f32(d)))\<close> is computed in floating
  point by the standard library. Its value is not modelled: it is given by a parameter
  \<open>L x1 x2 n d\<close> of the model, for all arguments. The source makes no test of the
  divisor, and neither does the model: for \<open>d = 0\<close> the value is whatever the library
  yields there.
\<close>

type_synonym lerp = "int \<Rightarrow> int \<Rightarrow> int \<Rightarrow> int \<Rightarrow> int"

text \<open>
  An instance of the parameter in exact arithmetic, truncated as the cast to \<open>i32\<close>
  truncates. It is used to run the model on concrete inputs.
\<close>

definition lerp_exact :: lerp where
  "lerp_exact x1 x2 num den = x1 + ((x2 - x1) * num) sdiv den"

record TextEdit = TextBox +
  textbuf :: u32string
  clusters :: "Cluster list"
  dirty :: bool
  hide_text :: bool
  cursor :: int
  no_blink_ticks :: nat

text \<open>
  \<open>rgs::lower_bound(clusters, cursor, {}, &Cluster::index)\<close>: the position of the first
  cluster whose index is not below the cursor; the length of the list stands for
  \<open>clusters.end()\<close>. (The library function requires the list to be partitioned by
  \<open>index < cursor\<close>, which sorted clusters are.)
\<close>

definition lower_bound :: "Cluster list \<Rightarrow> int \<Rightarrow> nat" where
  "lower_bound cl c = length (takeWhile (\<lambda>k. index k < c) cl)"

text \<open>
  The lambda of \<open>TextEdit::draw\<close> that computes \<open>cursor_offs\<close>, as a function of the
  clusters, the text length \<open>i32(text.size())\<close>, the width \<open>i32(label.width)\<close> and the
  cursor. \<open>std::prev\<close> of \<open>begin()\<close> is an error.
\<close>

definition cursor_offs_at :: "lerp \<Rightarrow> Cluster list \<Rightarrow> int \<Rightarrow> int \<Rightarrow> int \<Rightarrow> error + int" where
  "cursor_offs_at L cl n w c =
     (if c = 0 then Inr 0
      else if c = n then Inr w
      else
        let it = lower_bound cl c in
        if it = 0 then Inl PrevOfBegin
        else
          let prev = cl ! (it - 1); x1 = xoffs prev; i1 = index prev in
          if it \<noteq> length cl then
            (if index (cl ! it) = c then Inr (xoffs (cl ! it))
             else Inr (L x1 (xoffs (cl ! it)) (c - i1) (index (cl ! it) - i1)))
          else Inr (L x1 w (c - i1) (n - i1)))"

text \<open>
  The renderer, as far as the widgets read it: the viewport size, whether the cursor is
  in the visible phase of its blinking, and the shaping of a string into a shaped text
  with its clusters.
\<close>

record Renderer =
  rsize :: Size
  blink_cursor :: bool
  make_text :: "u32string \<Rightarrow> ShapedText \<times> Cluster list"

definition bullet :: nat where
  "bullet = 8226"

text \<open>The state changes of \<open>TextEdit::draw\<close> (the draw calls themselves have none).\<close>

definition TextEdit_draw :: "lerp \<Rightarrow> Renderer \<Rightarrow> TextEdit \<Rightarrow> error + TextEdit" where
  "TextEdit_draw L r te0 =
     (let te1 =
            (if dirty te0 then
               (case make_text r
                       (if hide_text te0 then replicate (length (textbuf te0)) bullet
                        else textbuf te0) of
                  (shaped, cl) \<Rightarrow> UpdateText shaped (te0\<lparr>dirty := False, clusters := cl\<rparr>))
             else te0);
          te2 = (if no_blink_ticks te1 \<noteq> 0
                 then te1\<lparr>no_blink_ticks := no_blink_ticks te1 - 1\<rparr> else te1)
      in if selected te2 \<and> clusters te2 \<noteq> [] \<and> (no_blink_ticks te2 \<noteq> 0 \<or> blink_cursor r) then
           (case cursor_offs_at L (clusters te2) (int (length (textbuf te2)))
                   (width (label te2)) (cursor te2) of
              Inl e \<Rightarrow> Inl e
            | Inr v \<Rightarrow> Inr (te2\<lparr>cursor_offs := v\<rparr>))
         else Inr (te2\<lparr>cursor_offs := - 1\<rparr>))"

text \<open>
  The lambda \<open>xoffs\<close> inside the loop of \<open>TextEdit::event_click\<close>. \<open>it\<close> is the position
  of the iterator, \<open>prev\<close> the cluster the pointer \<open>prev\<close> refers to (\<open>None\<close> for
  \<open>nullptr\<close>).
\<close>

definition click_xoffs :: "lerp \<Rightarrow> Cluster list \<Rightarrow> int \<Rightarrow> nat \<Rightarrow> Cluster option \<Rightarrow> int" where
  "click_xoffs L cl c it prev =
     (if c = index (cl ! it) then xoffs (cl ! it)
      else
        let prev_x = (case prev of Some p \<Rightarrow> xoffs p | None \<Rightarrow> 0);
            prev_i = (case prev of Some p \<Rightarrow> index p | None \<Rightarrow> 0)
        in L prev_x (xoffs (cl ! it)) (c - prev_i) (index (cl ! it) - prev_i))"

text \<open>
  The \<open>while\<close> loop of \<open>event_click\<close>; the result is the cursor when the loop is left
  (by its condition or by \<open>break\<close>). The cursor grows in every round that does not
  leave the loop, so the loop ends.
\<close>

function click_loop ::
  "lerp \<Rightarrow> Cluster list \<Rightarrow> int \<Rightarrow> int \<Rightarrow> int \<Rightarrow> int \<Rightarrow> int \<Rightarrow> nat \<Rightarrow> Cluster option \<Rightarrow> int"
where
  "click_loop L cl n mx x c d it prev =
     (if c < n \<and> it \<noteq> length cl then
        (let nd = \<bar>x + click_xoffs L cl c it prev - mx\<bar> in
         if nd > d then c - 1
         else click_loop L cl n mx x (c + 1) nd
                (if c + 1 > index (cl ! it) then Suc it else it) (Some (cl ! it)))
      else c)"
  by pat_completeness auto
termination
  by (relation "measure (\<lambda>(L, cl, n, mx, x, c, d, it, prev). nat (n - c))") auto

declare click_loop.simps [simp del]

definition TextEdit_event_click :: "lerp \<Rightarrow> AABB \<Rightarrow> InputSystem \<Rightarrow> TextEdit \<Rightarrow> TextEdit" where
  "TextEdit_event_click L parent_box input te0 =
     (let te = te0\<lparr>no_blink_ticks := 20\<rparr>;
          mx = xy_x (mouse_pos (mouse input));
          x0 = xy_x (TextPos parent_box te (label te));
          x1 = x0 + width (label te);
          n = int (length (textbuf te))
      in if mx < x0 then te\<lparr>cursor := 0\<rparr>
         else if mx > x1 then te\<lparr>cursor := n\<rparr>
         else if length (clusters te) < 2 then te\<lparr>cursor := 0\<rparr>
         else
           (let c = click_loop L (clusters te) n mx x0 0 \<bar>x0 - mx\<bar> 0 None
            in te\<lparr>cursor := (if c < 0 then 0 else if n < c then n else c)\<rparr>))"

text \<open>
  \<open>std::u32string::insert(pos, str)\<close> and \<open>erase(pos, count)\<close>: both throw
  \<open>std::out_of_range\<close> when the position is beyond the end. An \<open>i32\<close> passed as a position
  is converted to \<open>usz\<close>, so a negative one is beyond the end.
\<close>

definition u32string_insert :: "u32string \<Rightarrow> int \<Rightarrow> u32string \<Rightarrow> error + u32string" where
  "u32string_insert s p ins =
     (if p < 0 \<or> int (length s) < p then Inl OutOfRange
      else Inr (take (nat p) s @ ins @ drop (nat p) s))"

definition u32string_erase :: "u32string \<Rightarrow> int \<Rightarrow> nat \<Rightarrow> error + u32string" where
  "u32string_erase s p cnt =
     (if p < 0 \<or> int (length s) < p then Inl OutOfRange
      else Inr (take (nat p) s @ drop (nat p + cnt) s))"

text \<open>
  The two operations of the base library's \<open>u32stream\<close> that Ctrl+Backspace uses, after
  their names: \<open>trim_back\<close> drops trailing whitespace, \<open>drop_back_until_any\<close> drops
  trailing characters until the last one is one of the given ones.
\<close>

definition ws :: u32string where
  "ws = [32, 9, 10, 13, 11, 12]"

definition trim_back :: "u32string \<Rightarrow> u32string" where
  "trim_back s = rev (dropWhile (\<lambda>ch. ch \<in> set ws) (rev s))"

definition drop_back_until_any :: "u32string \<Rightarrow> u32string \<Rightarrow> u32string" where
  "drop_back_until_any stops s = rev (dropWhile (\<lambda>ch. ch \<notin> set stops) (rev s))"

text \<open>
  \<open>Paste\<close>: the clipboard is \<open>None\<close> when \<open>SDL_HasClipboardText()\<close> is false, and otherwise
  holds the decoded clipboard text.
\<close>

definition Paste :: "u32string option \<Rightarrow> TextEdit \<Rightarrow> TextEdit" where
  "Paste clipboard te =
     (case clipboard of
        None \<Rightarrow> te
      | Some t \<Rightarrow> te\<lparr>textbuf := textbuf te @ t, dirty := True\<rparr>)"

text \<open>One case of the \<open>switch\<close> over the key in \<open>TextEdit::event_input\<close>.\<close>

definition handle_key :: "u32string option \<Rightarrow> Event \<Rightarrow> TextEdit \<Rightarrow> error + TextEdit" where
  "handle_key clipboard ev te =
     (case key ev of
        SDLK_BACKSPACE \<Rightarrow>
          (if mod_ctrl ev then
             (if cursor te < 0 \<or> int (length (textbuf te)) < cursor te then Inl OutOfRange
              else
                let segment = take (nat (cursor te)) (textbuf te);
                    p = length (drop_back_until_any ws (trim_back segment))
                in case u32string_erase (textbuf te) (int p) (nat (cursor te - int p)) of
                     Inl e \<Rightarrow> Inl e
                   | Inr t \<Rightarrow> Inr (te\<lparr>textbuf := t, cursor := int p, dirty := True\<rparr>))
           else if cursor te \<noteq> 0 then
             (case u32string_erase (textbuf te) (cursor te - 1) 1 of
                Inl e \<Rightarrow> Inl e
              | Inr t \<Rightarrow> Inr (te\<lparr>cursor := cursor te - 1, textbuf := t, dirty := True\<rparr>))
           else Inr te)
      | SDLK_DELETE \<Rightarrow>
          (if cursor te \<noteq> int (length (textbuf te)) then
             (case u32string_erase (textbuf te) (cursor te) 1 of
                Inl e \<Rightarrow> Inl e
              | Inr t \<Rightarrow> Inr (te\<lparr>textbuf := t, dirty := True\<rparr>))
           else Inr te)
      | SDLK_LEFT \<Rightarrow> Inr (te\<lparr>cursor := max 0 (cursor te - 1)\<rparr>)
      | SDLK_RIGHT \<Rightarrow> Inr (te\<lparr>cursor := min (int (length (textbuf te))) (cursor te + 1)\<rparr>)
      | SDLK_HOME \<Rightarrow> Inr (te\<lparr>cursor := 0\<rparr>)
      | SDLK_END \<Rightarrow> Inr (te\<lparr>cursor := int (length (textbuf te))\<rparr>)
      | SDLK_V \<Rightarrow> Inr (if mod_ctrl ev then Paste clipboard te else te)
      | SDLK_INSERT \<Rightarrow> Inr (if mod_shift ev then Paste clipboard te else te)
      | SDLK_other k \<Rightarrow> Inr te)"

fun kb_loop :: "u32string option \<Rightarrow> Event list \<Rightarrow> TextEdit \<Rightarrow> error + TextEdit" where
  "kb_loop clipboard [] te = Inr te"
| "kb_loop clipboard (ev # evs) te =
     (case handle_key clipboard ev (te\<lparr>no_blink_ticks := 20\<rparr>) of
        Inl e \<Rightarrow> Inl e
      | Inr te' \<Rightarrow> kb_loop clipboard evs te')"

definition TextEdit_event_input :: "u32string option \<Rightarrow> InputSystem \<Rightarrow> TextEdit \<Rightarrow> error + TextEdit" where
  "TextEdit_event_input clipboard input te =
     (case (if text_input input \<noteq> [] then
              (case u32string_insert (textbuf te) (cursor te) (text_input input) of
                 Inl e \<Rightarrow> Inl e
               | Inr t \<Rightarrow>
                   Inr (te\<lparr>no_blink_ticks := 20, dirty := True, textbuf := t,
                          cursor := cursor te + int (length (text_input input))\<rparr>))
            else Inr te) of
        Inl e \<Rightarrow> Inl e
      | Inr te1 \<Rightarrow> kb_loop clipboard (kb_events input) te1)"

section \<open>Card and CardGroup\<close>

text \<open>
  The enumerators of \<open>Card::Scale\<close> that are scale levels. \<open>NumScales\<close> is their number;
  it bounds the tables \<open>CardSize\<close> and \<open>CardGaps\<close> and is not a level.
\<close>

datatype Scale = OtherPlayer | Field | Large

fun scale_value :: "Scale \<Rightarrow> nat" where
  "scale_value OtherPlayer = 0"
| "scale_value Field = 1"
| "scale_value Large = 2"

definition NumScales :: nat where
  "NumScales = 3"

fun CardSize :: "Scale \<Rightarrow> Size" where
  "CardSize OtherPlayer = \<lparr>wd = 60, ht = 90\<rparr>"
| "CardSize Field = \<lparr>wd = 120, ht = 180\<rparr>"
| "CardSize Large = \<lparr>wd = 240, ht = 360\<rparr>"

fun CardGaps :: "Scale \<Rightarrow> int" where
  "CardGaps OtherPlayer = 5"
| "CardGaps Field = 10"
| "CardGaps Large = 20"

text \<open>
  \<open>Scale(s - 1)\<close>: below \<open>OtherPlayer\<close> the \<open>u8\<close> wraps to 255, which is no level and
  indexes the tables out of bounds.
\<close>

fun scale_pred :: "Scale \<Rightarrow> Scale option" where
  "scale_pred Large = Some Field"
| "scale_pred Field = Some OtherPlayer"
| "scale_pred OtherPlayer = None"

text \<open>
  Of a \<open>Card\<close> the layout state is modelled: the widget, the scale property and the
  \<open>scale_changed\<close> latch. Its four labels (font sizes, positions) belong to drawing.
\<close>

record Card = Widget +
  card_scale :: Scale
  scale_changed :: bool

definition Card_set_scale :: "Scale \<Rightarrow> Card \<Rightarrow> Card" where
  "Card_set_scale new_value c =
     (if card_scale c = new_value then c
      else c\<lparr>card_scale := new_value, needs_refresh := True, scale_changed := True\<rparr>)"

definition Card_refresh :: "AABB \<Rightarrow> Card \<Rightarrow> Card" where
  "Card_refresh parent_box c =
     (let c1 = c\<lparr>bounding_box :=
                  \<lparr>origin = relative_box (pos c) parent_box (CardSize (card_scale c)),
                   box_size = CardSize (card_scale c)\<rparr>\<rparr>
      in if \<not> scale_changed c1 then c1 else c1\<lparr>scale_changed := False\<rparr>)"

record CardGroup = Widget +
  scale :: Scale
  max_width :: int
  autoscale :: bool
  cards :: "Card list"

text \<open>
  The row width \<open>i32(cards.size() * CardSize[s].wd + (cards.size() - 1) * CardGaps[s])\<close>:
  the arithmetic is in \<open>usz\<close> (64 bits, wrapping), the result is cast to \<open>i32\<close>.
\<close>

definition usz_wrap :: "int \<Rightarrow> int" where
  "usz_wrap v = v mod 18446744073709551616"

definition row_width :: "nat \<Rightarrow> Scale \<Rightarrow> int" where
  "row_width n s =
     i32_wrap (usz_wrap (usz_wrap (int n * wd (CardSize s))
                         + usz_wrap (usz_wrap (int n - 1) * CardGaps s)))"

text \<open>
  The \<open>while (s != scale)\<close> loop of \<open>CardGroup::refresh\<close>, entered with
  \<open>s = Scale(NumScales - 1)\<close>. \<open>None\<close> is the out-of-bounds read of the tables.
\<close>

function autoscale_loop :: "nat \<Rightarrow> int \<Rightarrow> Scale \<Rightarrow> Scale \<Rightarrow> Scale option" where
  "autoscale_loop n avail target s =
     (if s \<noteq> target then
        (if row_width n s < avail then Some s
         else case scale_pred s of
                None \<Rightarrow> None
              | Some s' \<Rightarrow> autoscale_loop n avail target s')
      else Some s)"
  by pat_completeness auto
termination
  by (relation "measure (\<lambda>(n, avail, target, s). scale_value s)")
     (auto elim: scale_pred.elims)

declare autoscale_loop.simps [simp del]

text \<open>The first \<open>for\<close> loop over the cards: scale, position, running offset.\<close>

fun layout_cards :: "Scale \<Rightarrow> int \<Rightarrow> Card list \<Rightarrow> int \<times> Card list" where
  "layout_cards s x [] = (x, [])"
| "layout_cards s x (c # cs) =
     (case layout_cards s (x + (wd (CardSize s) + CardGaps s)) cs of
        (x', cs') \<Rightarrow> (x', (Card_set_scale s c)\<lparr>pos := VCenter x Anchor_Default\<rparr> # cs'))"

definition CardGroup_refresh :: "AABB \<Rightarrow> CardGroup \<Rightarrow> error + CardGroup" where
  "CardGroup_refresh parent_box g =
     (if cards g = [] then Inr g
      else
        let avail = (if max_width g \<noteq> 0 then max_width g else wd (box_size (bounding_box g)))
        in case (if autoscale g then autoscale_loop (length (cards g)) avail (scale g) Large
                 else Some (scale g)) of
             None \<Rightarrow> Inl ScaleOutOfBounds
           | Some s \<Rightarrow>
               (case layout_cards s 0 (cards g) of
                  (x, cs) \<Rightarrow>
                    let sz = \<lparr>wd = x - CardGaps s, ht = ht (CardSize s)\<rparr>;
                        box = \<lparr>origin = relative_box (pos g) parent_box sz, box_size = sz\<rparr>
                    in Inr (g\<lparr>bounding_box := box, cards := map (Card_refresh box) cs\<rparr>)))"

section \<open>Screen\<close>

text \<open>
  The children of a screen are widgets of several classes; their virtual functions
  \<open>refresh\<close>, \<open>event_click\<close> and \<open>event_input\<close> are given by a table of functions on the
  widget (with the screen's box, which they read through \<open>parent\<close>). \<open>AABB::contains\<close> is
  not among the sources and is a further parameter, \<open>hit\<close>. The pointer
  \<open>selected_element\<close> is the position of the child it points to.
\<close>

record 'a vtable =
  refresh_of :: "Renderer \<Rightarrow> AABB \<Rightarrow> 'a Widget_scheme \<Rightarrow> 'a Widget_scheme"
  event_click_of :: "AABB \<Rightarrow> InputSystem \<Rightarrow> 'a Widget_scheme \<Rightarrow> 'a Widget_scheme"
  event_input_of :: "AABB \<Rightarrow> InputSystem \<Rightarrow> 'a Widget_scheme \<Rightarrow> 'a Widget_scheme"

record 'a Screen =
  screen_box :: AABB
  children :: "'a Widget_scheme list"
  selected_element :: "nat option"
  prev_size :: Size

text \<open>
  The calls a function makes on the children and on SDL, in order; the number is the
  position of the child.
\<close>

datatype call = Refresh nat | EventClick nat | EventInput nat | StartTextInput | StopTextInput

text \<open>
  The two \<open>for\<close> loops of \<open>Screen::refresh\<close> differ in their condition only, which is
  the argument \<open>cond\<close>.
\<close>

fun refresh_loop ::
  "'a vtable \<Rightarrow> Renderer \<Rightarrow> AABB \<Rightarrow> ('a Widget_scheme \<Rightarrow> bool) \<Rightarrow> nat \<Rightarrow> 'a Widget_scheme list
     \<Rightarrow> call list \<times> 'a Widget_scheme list"
where
  "refresh_loop V r box cond i [] = ([], [])"
| "refresh_loop V r box cond i (e # es) =
     (case refresh_loop V r box cond (Suc i) es of
        (calls, es') \<Rightarrow>
          if cond e then (Refresh i # calls, refresh_of V r box (e\<lparr>needs_refresh := False\<rparr>) # es')
          else (calls, e # es'))"

definition Screen_refresh :: "'a vtable \<Rightarrow> Renderer \<Rightarrow> 'a Screen \<Rightarrow> call list \<times> 'a Screen" where
  "Screen_refresh V r s0 =
     (let s = s0\<lparr>screen_box := \<lparr>origin = \<lparr>xy_x = 0, xy_y = 0\<rparr>, box_size = rsize r\<rparr>\<rparr>
      in if prev_size s = rsize r then
           (case refresh_loop V r (screen_box s) needs_refresh 0 (children s) of
              (calls, es) \<Rightarrow> (calls, s\<lparr>children := es\<rparr>))
         else
           (case refresh_loop V r (screen_box s) (\<lambda>e. visible e \<or> needs_refresh e) 0
                   (children s) of
              (calls, es) \<Rightarrow> (calls, s\<lparr>prev_size := rsize r, children := es\<rparr>)))"

definition update_selection :: "bool \<Rightarrow> InputSystem \<Rightarrow> call list \<times> InputSystem" where
  "update_selection is_element_selected input =
     (if was_selected input = is_element_selected then ([], input)
      else ([if is_element_selected then StartTextInput else StopTextInput],
            input\<lparr>was_selected := is_element_selected\<rparr>))"

text \<open>
  The loop of \<open>Screen::tick\<close> over the visible children. It threads the selection and
  returns the calls, the children and the selection after the pass.
\<close>

fun tick_loop ::
  "(AABB \<Rightarrow> xy \<Rightarrow> bool) \<Rightarrow> 'a vtable \<Rightarrow> AABB \<Rightarrow> InputSystem \<Rightarrow> nat \<Rightarrow> 'a Widget_scheme list
     \<Rightarrow> nat option \<Rightarrow> call list \<times> 'a Widget_scheme list \<times> nat option"
where
  "tick_loop hit V box input i [] sel = ([], [], sel)"
| "tick_loop hit V box input i (e # es) sel =
     (if visible e then
        (let e1 = reset_properties e;
             e2 = e1\<lparr>hovered := hit (bounding_box e1) (mouse_pos (mouse input))\<rparr>
         in if hovered e2 \<and> left (mouse input) then
              (case tick_loop hit V box input (Suc i) es
                      (if selectable e2 then Some i else sel) of
                 (calls, es', sel') \<Rightarrow>
                   (EventClick i # calls, event_click_of V box input e2 # es', sel'))
            else
              (case tick_loop hit V box input (Suc i) es sel of
                 (calls, es', sel') \<Rightarrow> (calls, e2 # es', sel')))
      else
        (case tick_loop hit V box input (Suc i) es sel of
           (calls, es', sel') \<Rightarrow> (calls, e # es', sel')))"

text \<open>The part of \<open>Screen::tick\<close> after the loop, for the selection \<open>sel\<close>.\<close>

definition tick_selected ::
  "'a vtable \<Rightarrow> AABB \<Rightarrow> InputSystem \<Rightarrow> nat option \<Rightarrow> 'a Widget_scheme list
     \<Rightarrow> call list \<times> 'a Widget_scheme list"
where
  "tick_selected V box input sel es =
     (case sel of
        None \<Rightarrow> ([], es)
      | Some i \<Rightarrow>
          if i < length es
          then ([EventInput i], es[i := event_input_of V box input ((es ! i)\<lparr>selected := True\<rparr>)])
          else ([], es))"

definition Screen_tick ::
  "(AABB \<Rightarrow> xy \<Rightarrow> bool) \<Rightarrow> 'a vtable \<Rightarrow> InputSystem \<Rightarrow> 'a Screen
     \<Rightarrow> call list \<times> 'a Screen \<times> InputSystem"
where
  "Screen_tick hit V input s =
     (let sel0 = (if left (mouse input) then None else selected_element s)
      in case tick_loop hit V (screen_box s) input 0 (children s) sel0 of
           (calls1, es1, sel) \<Rightarrow>
             (case tick_selected V (screen_box s) input sel es1 of
                (calls2, es2) \<Rightarrow>
                  (case update_selection (sel \<noteq> None) input of
                     (calls3, input') \<Rightarrow>
                       (calls1 @ calls2 @ calls3,
                        s\<lparr>children := es2, selected_element := sel\<rparr>,
                        input'))))"

section \<open>A concrete screen\<close>

text \<open>
  A screen with four plain widgets, a renderer, an input snapshot and one reading of the
  hit test, on which the functions above can be run.
\<close>

definition box_hit :: "AABB \<Rightarrow> xy \<Rightarrow> bool" where
  "box_hit b p =
     (xy_x (origin b) \<le> xy_x p \<and> xy_x p < xy_x (origin b) + wd (box_size b) \<and>
      xy_y (origin b) \<le> xy_y p \<and> xy_y p < xy_y (origin b) + ht (box_size b))"

definition demo_vtable :: "unit vtable" where
  "demo_vtable =
     \<lparr>refresh_of = (\<lambda>r box w. w\<lparr>bounding_box := rbox box w\<rparr>),
      event_click_of = (\<lambda>box input w. w),
      event_input_of = (\<lambda>box input w. w)\<rparr>"

text \<open>A table whose \<open>event_click\<close> leaves a mark on the widget.\<close>

definition click_marking_vtable :: "unit vtable" where
  "click_marking_vtable =
     \<lparr>refresh_of = (\<lambda>r box w. w),
      event_click_of = (\<lambda>box input w. w\<lparr>needs_refresh := True\<rparr>),
      event_input_of = (\<lambda>box input w. w)\<rparr>"

definition demo_widget :: "int \<Rightarrow> bool \<Rightarrow> bool \<Rightarrow> bool \<Rightarrow> Widget" where
  "demo_widget px sel vis flag =
     \<lparr>bounding_box = \<lparr>origin = \<lparr>xy_x = px, xy_y = 0\<rparr>, box_size = \<lparr>wd = 10, ht = 10\<rparr>\<rparr>,
      hovered = False, selectable = sel, selected = False, visible = vis,
      needs_refresh = flag, pos = Position_at px 0 Anchor_Default\<rparr>"

definition demo_screen :: "unit Screen" where
  "demo_screen =
     \<lparr>screen_box = \<lparr>origin = \<lparr>xy_x = 0, xy_y = 0\<rparr>, box_size = \<lparr>wd = 100, ht = 50\<rparr>\<rparr>,
      children = [demo_widget 0 True True False, demo_widget 20 False False True,
                  demo_widget 0 False True False, demo_widget 40 True False False],
      selected_element = Some 1,
      prev_size = \<lparr>wd = 100, ht = 50\<rparr>\<rparr>"

definition demo_renderer :: "int \<Rightarrow> Renderer" where
  "demo_renderer w =
     \<lparr>rsize = \<lparr>wd = w, ht = 50\<rparr>, blink_cursor = True,
      make_text = (\<lambda>t. (\<lparr>width = 10 * int (length t), depth = 0,
                          shaped_size = \<lparr>wd = 10 * int (length t), ht = 10\<rparr>\<rparr>,
                        map (\<lambda>i. \<lparr>index = int i, xoffs = 10 * int i\<rparr>) [0..<length t]))\<rparr>"

definition demo_input :: "int \<Rightarrow> bool \<Rightarrow> InputSystem" where
  "demo_input mx click =
     \<lparr>was_selected = False, text_input = [], kb_events = [],
      mouse = \<lparr>mouse_pos = \<lparr>xy_x = mx, xy_y = 5\<rparr>, left = click, right = False, middle = False\<rparr>,
      quit = False\<rparr>"

text \<open>
  A card as its constructor leaves it (scale \<open>Field\<close>, \<open>scale_changed\<close> set), and a group
  of four such cards with autoscaling on and a maximum width of 300.
\<close>

definition zero_box :: AABB where
  "zero_box = \<lparr>origin = \<lparr>xy_x = 0, xy_y = 0\<rparr>, box_size = \<lparr>wd = 0, ht = 0\<rparr>\<rparr>"

definition new_Card :: Card where
  "new_Card =
     \<lparr>bounding_box = zero_box, hovered = False, selectable = False, selected = False,
      visible = True, needs_refresh = False, pos = Position_at 0 0 Anchor_Default,
      card_scale = Field, scale_changed = True\<rparr>"

definition demo_group :: "Scale \<Rightarrow> CardGroup" where
  "demo_group sc =
     \<lparr>bounding_box = zero_box, hovered = False, selectable = False, selected = False,
      visible = True, needs_refresh = True, pos = Position_at 0 0 Anchor_Default,
      scale = sc, max_width = 300, autoscale = True,
      cards = [new_Card, new_Card, new_Card, new_Card]\<rparr>"

text \<open>
  A text edit holding the four characters \<open>ffi!\<close>, shaped into a ligature of three
  characters and one more glyph (clusters at the indices 0 and 3), 40 pixels wide, in a
  box 256 wide: the text starts at x = 108.
\<close>

definition demo_parent_box :: AABB where
  "demo_parent_box = \<lparr>origin = \<lparr>xy_x = 0, xy_y = 0\<rparr>, box_size = \<lparr>wd = 800, ht = 600\<rparr>\<rparr>"

definition demo_edit :: TextEdit where
  "demo_edit =
     \<lparr>bounding_box = \<lparr>origin = \<lparr>xy_x = 0, xy_y = 0\<rparr>, box_size = \<lparr>wd = 256, ht = 22\<rparr>\<rparr>,
      hovered = True, selectable = True, selected = True, visible = True,
      needs_refresh = False, pos = Position_at 0 0 Anchor_Default,
      label = \<lparr>width = 40, depth = 0, shaped_size = \<lparr>wd = 40, ht = 16\<rparr>\<rparr>,
      placeholder = \<lparr>width = 0, depth = 0, shaped_size = \<lparr>wd = 0, ht = 0\<rparr>\<rparr>,
      padding = 3, min_wd = 250, min_ht = 0, cursor_offs = - 1,
      textbuf = [102, 102, 105, 33],
      clusters = [\<lparr>index = 0, xoffs = 0\<rparr>, \<lparr>index = 3, xoffs = 30\<rparr>],
      dirty = False, hide_text = False, cursor = 0, no_blink_ticks = 0\<rparr>"

section \<open>Properties of the geometry resolver\<close>

lemma relative_centered_x:
  assumes "xy_x (base p) = Centered"
  shows "xy_x (relative p parent ps os) = xy_x parent + (wd ps - wd os) sdiv 2 + xadjust p"
  using assms by (cases "anchor p") (simp_all add: relative_def Adjust_def Clamp_def Let_def)

lemma relative_centered_y:
  assumes "xy_y (base p) = Centered"
  shows "xy_y (relative p parent ps os) = xy_y parent + (ht ps - ht os) sdiv 2 + yadjust p"
  using assms by (cases "anchor p") (simp_all add: relative_def Adjust_def Clamp_def Let_def)

text \<open>
  Claim C4. On an axis whose base coordinate is \<open>Centered\<close> the anchor adjustment is
  skipped: for every position, the resolved coordinate on a centred axis is the same
  with each of the nine anchors as with \<open>Anchor::SouthWest\<close> (also when the other axis
  is not centred, as for \<open>HCenter\<close> and \<open>VCenter\<close>). So \<open>Position::Center()\<close> resolves to
  the same point with every anchor, for every container origin, container size and
  object size, and also after the same pixel offsets have been applied to both.
\<close>


theorem relative_Center_any_anchor:
  "relative (Position_Center a) parent parent_size object_size =
     relative (Position_Center SouthWest) parent parent_size object_size
   \<and> relative (hoffset dx (voffset dy (Position_Center a))) parent parent_size object_size =
     relative (hoffset dx (voffset dy (Position_Center SouthWest))) parent parent_size object_size
   \<and> (xy_x (base p) = Centered \<longrightarrow>
        xy_x (relative (anchor_to a p) parent parent_size object_size) =
        xy_x (relative (anchor_to SouthWest p) parent parent_size object_size))
   \<and> (xy_y (base p) = Centered \<longrightarrow>
        xy_y (relative (anchor_to a p) parent parent_size object_size) =
        xy_y (relative (anchor_to SouthWest p) parent parent_size object_size))"
proof (intro conjI impI)
  show "relative (Position_Center a) parent parent_size object_size =
     relative (Position_Center SouthWest) parent parent_size object_size"
    by (cases a)
       (simp_all add: relative_def Adjust_def Position_Center_def Position_at_def Let_def)
next
  show "relative (hoffset dx (voffset dy (Position_Center a))) parent parent_size object_size =
     relative (hoffset dx (voffset dy (Position_Center SouthWest))) parent parent_size object_size"
    by (cases a)
       (simp_all add: relative_def Adjust_def Position_Center_def Position_at_def hoffset_def
          voffset_def Let_def)
next
  assume c: "xy_x (base p) = Centered"
  then have "xy_x (base (anchor_to a p)) = Centered" "xy_x (base (anchor_to SouthWest p)) = Centered"
    by (simp_all add: anchor_to_def)
  then show "xy_x (relative (anchor_to a p) parent parent_size object_size) =
        xy_x (relative (anchor_to SouthWest p) parent parent_size object_size)"
    by (simp add: relative_centered_x anchor_to_def)
next
  assume c: "xy_y (base p) = Centered"
  then have "xy_y (base (anchor_to a p)) = Centered" "xy_y (base (anchor_to SouthWest p)) = Centered"
    by (simp_all add: anchor_to_def)
  then show "xy_y (relative (anchor_to a p) parent parent_size object_size) =
        xy_y (relative (anchor_to SouthWest p) parent parent_size object_size)"
    by (simp add: relative_centered_y anchor_to_def)
qed

theorem relative_Center_any_anchor_witness:
  "xy_x (base (HCenter (- 7) SouthWest)) = Centered
   \<and> xy_x (relative (anchor_to NorthEast (HCenter (- 7) SouthWest)) \<lparr>xy_x = 10, xy_y = 20\<rparr>
        \<lparr>wd = 200, ht = 100\<rparr> \<lparr>wd = 50, ht = 20\<rparr>) = 85
   \<and> xy_x (relative (anchor_to SouthWest (HCenter (- 7) SouthWest)) \<lparr>xy_x = 10, xy_y = 20\<rparr>
        \<lparr>wd = 200, ht = 100\<rparr> \<lparr>wd = 50, ht = 20\<rparr>) = 85
   \<and> xy_y (relative (anchor_to NorthEast (HCenter (- 7) SouthWest)) \<lparr>xy_x = 10, xy_y = 20\<rparr>
        \<lparr>wd = 200, ht = 100\<rparr> \<lparr>wd = 50, ht = 20\<rparr>) = 73
   \<and> xy_y (relative (anchor_to SouthWest (HCenter (- 7) SouthWest)) \<lparr>xy_x = 10, xy_y = 20\<rparr>
        \<lparr>wd = 200, ht = 100\<rparr> \<lparr>wd = 50, ht = 20\<rparr>) = 93
   \<and> xy_y (base (VCenter 5 SouthWest)) = Centered
   \<and> xy_y (relative (anchor_to Center (VCenter 5 SouthWest)) \<lparr>xy_x = 10, xy_y = 20\<rparr>
        \<lparr>wd = 200, ht = 100\<rparr> \<lparr>wd = 50, ht = 20\<rparr>) = 60
   \<and> xy_y (relative (anchor_to SouthWest (VCenter 5 SouthWest)) \<lparr>xy_x = 10, xy_y = 20\<rparr>
        \<lparr>wd = 200, ht = 100\<rparr> \<lparr>wd = 50, ht = 20\<rparr>) = 60"
  using relative_Center_any_anchor [where p = "HCenter (- 7) SouthWest" and a = NorthEast
      and parent = "\<lparr>xy_x = 10, xy_y = 20\<rparr>" and parent_size = "\<lparr>wd = 200, ht = 100\<rparr>"
      and object_size = "\<lparr>wd = 50, ht = 20\<rparr>"]
    relative_Center_any_anchor [where p = "VCenter 5 SouthWest" and a = Center
      and parent = "\<lparr>xy_x = 10, xy_y = 20\<rparr>" and parent_size = "\<lparr>wd = 200, ht = 100\<rparr>"
      and object_size = "\<lparr>wd = 50, ht = 20\<rparr>"]
  by (simp add: HCenter_def VCenter_def Position_at_def anchor_to_def relative_def Adjust_def
      Clamp_def Centered_def Let_def)

lemma relative_adjust_x:
  "xy_x (relative p parent ps os) =
     xy_x (relative (p\<lparr>xadjust := 0, yadjust := 0\<rparr>) parent ps os) + xadjust p"
  by (cases "anchor p") (simp_all add: relative_def Adjust_def Let_def)

lemma relative_adjust_y:
  "xy_y (relative p parent ps os) =
     xy_y (relative (p\<lparr>xadjust := 0, yadjust := 0\<rparr>) parent ps os) + yadjust p"
  by (cases "anchor p") (simp_all add: relative_def Adjust_def Let_def)

text \<open>
  Claim C2, as amended. The pixel adjustments \<open>xadjust\<close> and \<open>yadjust\<close> are added on
  every axis, centred or not, and with every anchor: the resolved coordinate is the one
  of the same position without adjustments, plus the adjustment of that axis. On a
  centred axis it is the container origin plus \<open>(containerSize - objectSize) / 2\<close> plus
  the adjustment of that axis. (What is skipped on a centred axis is the anchor
  adjustment.)
\<close>


theorem relative_centered_axis_keeps_adjust:
  "(xy_x (base p) = Centered \<longrightarrow>
      xy_x (relative p parent ps os) = xy_x parent + (wd ps - wd os) sdiv 2 + xadjust p)
   \<and> (xy_y (base p) = Centered \<longrightarrow>
      xy_y (relative p parent ps os) = xy_y parent + (ht ps - ht os) sdiv 2 + yadjust p)
   \<and> xy_x (relative p parent ps os) =
       xy_x (relative (p\<lparr>xadjust := 0, yadjust := 0\<rparr>) parent ps os) + xadjust p
   \<and> xy_y (relative p parent ps os) =
       xy_y (relative (p\<lparr>xadjust := 0, yadjust := 0\<rparr>) parent ps os) + yadjust p"
  using relative_centered_x [of p parent ps os] relative_centered_y [of p parent ps os]
    relative_adjust_x [of p parent ps os] relative_adjust_y [of p parent ps os]
  by blast

theorem relative_centered_axis_keeps_adjust_witness:
  "xy_x (relative (hoffset 5 (Position_Center North)) \<lparr>xy_x = 10, xy_y = 20\<rparr>
       \<lparr>wd = 200, ht = 100\<rparr> \<lparr>wd = 50, ht = 20\<rparr>) = 90
   \<and> xy_y (relative (hoffset 5 (Position_Center North)) \<lparr>xy_x = 10, xy_y = 20\<rparr>
       \<lparr>wd = 200, ht = 100\<rparr> \<lparr>wd = 50, ht = 20\<rparr>) = 60
   \<and> xy_x (relative (hoffset 5 (voffset (- 3) (Position_at 7 (- 1) NorthEast)))
       \<lparr>xy_x = 10, xy_y = 20\<rparr> \<lparr>wd = 200, ht = 100\<rparr> \<lparr>wd = 50, ht = 20\<rparr>)
     = xy_x (relative (Position_at 7 (- 1) NorthEast)
       \<lparr>xy_x = 10, xy_y = 20\<rparr> \<lparr>wd = 200, ht = 100\<rparr> \<lparr>wd = 50, ht = 20\<rparr>) + 5
   \<and> xy_y (relative (hoffset 5 (voffset (- 3) (Position_at 7 (- 1) NorthEast)))
       \<lparr>xy_x = 10, xy_y = 20\<rparr> \<lparr>wd = 200, ht = 100\<rparr> \<lparr>wd = 50, ht = 20\<rparr>)
     = xy_y (relative (Position_at 7 (- 1) NorthEast)
       \<lparr>xy_x = 10, xy_y = 20\<rparr> \<lparr>wd = 200, ht = 100\<rparr> \<lparr>wd = 50, ht = 20\<rparr>) - 3"
  using relative_centered_axis_keeps_adjust [where p = "hoffset 5 (Position_Center North)"
      and parent = "\<lparr>xy_x = 10, xy_y = 20\<rparr>" and ps = "\<lparr>wd = 200, ht = 100\<rparr>"
      and os = "\<lparr>wd = 50, ht = 20\<rparr>"]
    relative_centered_axis_keeps_adjust
      [where p = "hoffset 5 (voffset (- 3) (Position_at 7 (- 1) NorthEast))"
      and parent = "\<lparr>xy_x = 10, xy_y = 20\<rparr>" and ps = "\<lparr>wd = 200, ht = 100\<rparr>"
      and os = "\<lparr>wd = 50, ht = 20\<rparr>"]
  by (simp add: hoffset_def voffset_def Position_Center_def Position_at_def i16_wrap_def
      saturate_cast_i16_def)

text \<open>
  The claim as stated fails: with a horizontal offset of 5 the centred position resolves
  to x = 80 in a container of width 200 for an object of width 50, not to 75, and so
  depends on the adjustment.
\<close>

theorem adjust_on_centered_axis_counterexample:
  "xy_x (relative (hoffset 5 (Position_Center SouthWest)) \<lparr>xy_x = 0, xy_y = 0\<rparr>
       \<lparr>wd = 200, ht = 100\<rparr> \<lparr>wd = 50, ht = 20\<rparr>) = 80
   \<and> xy_x (relative (hoffset 5 (Position_Center SouthWest)) \<lparr>xy_x = 0, xy_y = 0\<rparr>
       \<lparr>wd = 200, ht = 100\<rparr> \<lparr>wd = 50, ht = 20\<rparr>) \<noteq> 0 + (200 - 50) sdiv 2
   \<and> xy_x (relative (hoffset 5 (Position_Center SouthWest)) \<lparr>xy_x = 0, xy_y = 0\<rparr>
       \<lparr>wd = 200, ht = 100\<rparr> \<lparr>wd = 50, ht = 20\<rparr>) \<noteq>
     xy_x (relative (Position_Center SouthWest) \<lparr>xy_x = 0, xy_y = 0\<rparr>
       \<lparr>wd = 200, ht = 100\<rparr> \<lparr>wd = 50, ht = 20\<rparr>)"
  by (simp add: relative_def Clamp_def hoffset_def Position_Center_def Position_at_def
      i16_wrap_def saturate_cast_i16_def Let_def)

text \<open>
  Claim C3, as amended. On each axis \<open>Position::relative\<close> resolves the base coordinate
  thus: \<open>Centered\<close> gives \<open>(containerSize - objectSize) / 2\<close> with the quotient truncated
  towards zero (the floor when the object is not larger than the container), a negative
  value gives \<open>containerSize + base - objectSize\<close>, any other value is taken as it is; to
  this the container origin and the adjustment are added, and the anchor's share of the
  object's extent is subtracted unless the axis is centred. \<open>Position::Center()\<close> in a
  container of 200 by 100 with an object of 50 by 20 resolves to (75, 40), with every
  anchor; \<open>Position{0, 0, Anchor::Center}\<close> resolves there to (-25, -10).
\<close>

theorem relative_axis_formula:
  "xy_x (relative p parent ps os) =
     xy_x parent
     + (if xy_x (base p) = Centered then (wd ps - wd os) sdiv 2
        else if xy_x (base p) < 0 then wd ps + xy_x (base p) - wd os
        else xy_x (base p))
     + xadjust p
     - (if xy_x (base p) = Centered then 0
        else case anchor p of
               North \<Rightarrow> wd os sdiv 2 | NorthEast \<Rightarrow> wd os | East \<Rightarrow> wd os
             | SouthEast \<Rightarrow> wd os | South \<Rightarrow> wd os sdiv 2 | SouthWest \<Rightarrow> 0
             | West \<Rightarrow> 0 | NorthWest \<Rightarrow> 0 | Center \<Rightarrow> wd os sdiv 2)
   \<and> xy_y (relative p parent ps os) =
     xy_y parent
     + (if xy_y (base p) = Centered then (ht ps - ht os) sdiv 2
        else if xy_y (base p) < 0 then ht ps + xy_y (base p) - ht os
        else xy_y (base p))
     + yadjust p
     - (if xy_y (base p) = Centered then 0
        else case anchor p of
               North \<Rightarrow> ht os | NorthEast \<Rightarrow> ht os | East \<Rightarrow> ht os sdiv 2
             | SouthEast \<Rightarrow> 0 | South \<Rightarrow> 0 | SouthWest \<Rightarrow> 0
             | West \<Rightarrow> ht os sdiv 2 | NorthWest \<Rightarrow> ht os | Center \<Rightarrow> ht os sdiv 2)
   \<and> (wd os \<le> wd ps \<longrightarrow> (wd ps - wd os) sdiv 2 = (wd ps - wd os) div 2)
   \<and> relative (Position_Center a) \<lparr>xy_x = 0, xy_y = 0\<rparr> \<lparr>wd = 200, ht = 100\<rparr>
        \<lparr>wd = 50, ht = 20\<rparr> = \<lparr>xy_x = 75, xy_y = 40\<rparr>
   \<and> relative (Position_at 0 0 Center) \<lparr>xy_x = 0, xy_y = 0\<rparr> \<lparr>wd = 200, ht = 100\<rparr>
        \<lparr>wd = 50, ht = 20\<rparr> = \<lparr>xy_x = - 25, xy_y = - 10\<rparr>"
proof -
  have X: "xy_x (relative p parent ps os) =
     xy_x parent
     + (if xy_x (base p) = Centered then (wd ps - wd os) sdiv 2
        else if xy_x (base p) < 0 then wd ps + xy_x (base p) - wd os
        else xy_x (base p))
     + xadjust p
     - (if xy_x (base p) = Centered then 0
        else case anchor p of
               North \<Rightarrow> wd os sdiv 2 | NorthEast \<Rightarrow> wd os | East \<Rightarrow> wd os
             | SouthEast \<Rightarrow> wd os | South \<Rightarrow> wd os sdiv 2 | SouthWest \<Rightarrow> 0
             | West \<Rightarrow> 0 | NorthWest \<Rightarrow> 0 | Center \<Rightarrow> wd os sdiv 2)"
    by (cases "anchor p") (simp_all add: relative_def Adjust_def Clamp_def Let_def)
  have Y: "xy_y (relative p parent ps os) =
     xy_y parent
     + (if xy_y (base p) = Centered then (ht ps - ht os) sdiv 2
        else if xy_y (base p) < 0 then ht ps + xy_y (base p) - ht os
        else xy_y (base p))
     + yadjust p
     - (if xy_y (base p) = Centered then 0
        else case anchor p of
               North \<Rightarrow> ht os | NorthEast \<Rightarrow> ht os | East \<Rightarrow> ht os sdiv 2
             | SouthEast \<Rightarrow> 0 | South \<Rightarrow> 0 | SouthWest \<Rightarrow> 0
             | West \<Rightarrow> ht os sdiv 2 | NorthWest \<Rightarrow> ht os | Center \<Rightarrow> ht os sdiv 2)"
    by (cases "anchor p") (simp_all add: relative_def Adjust_def Clamp_def Let_def)
  have D: "wd os \<le> wd ps \<longrightarrow> (wd ps - wd os) sdiv 2 = (wd ps - wd os) div 2"
    by (simp add: signed_divide_int_def sgn_if)
  have E1: "relative (Position_Center a) \<lparr>xy_x = 0, xy_y = 0\<rparr> \<lparr>wd = 200, ht = 100\<rparr>
        \<lparr>wd = 50, ht = 20\<rparr> = \<lparr>xy_x = 75, xy_y = 40\<rparr>"
    by (cases a)
       (simp_all add: relative_def Adjust_def Clamp_def Position_Center_def Position_at_def Let_def)
  have E2: "relative (Position_at 0 0 Center) \<lparr>xy_x = 0, xy_y = 0\<rparr> \<lparr>wd = 200, ht = 100\<rparr>
        \<lparr>wd = 50, ht = 20\<rparr> = \<lparr>xy_x = - 25, xy_y = - 10\<rparr>"
    by (simp add: relative_def Adjust_def Clamp_def Position_at_def Centered_def Let_def)
  from X Y D E1 E2 show ?thesis by blast
qed

theorem relative_axis_formula_witness:
  "xy_x (relative (Position_at (- 1) 7 NorthEast) \<lparr>xy_x = 10, xy_y = 20\<rparr>
       \<lparr>wd = 200, ht = 100\<rparr> \<lparr>wd = 50, ht = 20\<rparr>) = 109
   \<and> xy_y (relative (Position_at (- 1) 7 NorthEast) \<lparr>xy_x = 10, xy_y = 20\<rparr>
       \<lparr>wd = 200, ht = 100\<rparr> \<lparr>wd = 50, ht = 20\<rparr>) = 7
   \<and> (200 - 50) sdiv 2 = (75::int)"
  using relative_axis_formula [of "Position_at (- 1) 7 NorthEast" "\<lparr>xy_x = 10, xy_y = 20\<rparr>"
      "\<lparr>wd = 200, ht = 100\<rparr>" "\<lparr>wd = 50, ht = 20\<rparr>"]
  by (simp add: Position_at_def Centered_def)

text \<open>
  The claim as stated fails twice: \<open>Position{0, 0, Anchor::Center}\<close> does not resolve
  to (75, 40), and for an object wider than its container by an odd amount the quotient
  is not the floor.
\<close>

theorem relative_spec_example_counterexample:
  "relative (Position_at 0 0 Center) \<lparr>xy_x = 0, xy_y = 0\<rparr> \<lparr>wd = 200, ht = 100\<rparr>
        \<lparr>wd = 50, ht = 20\<rparr> = \<lparr>xy_x = - 25, xy_y = - 10\<rparr>
   \<and> relative (Position_at 0 0 Center) \<lparr>xy_x = 0, xy_y = 0\<rparr> \<lparr>wd = 200, ht = 100\<rparr>
        \<lparr>wd = 50, ht = 20\<rparr> \<noteq> \<lparr>xy_x = 75, xy_y = 40\<rparr>
   \<and> Clamp Centered 13 10 = - 1
   \<and> Clamp Centered 13 10 \<noteq> (10 - 13) div 2"
  by (simp add: relative_def Adjust_def Clamp_def Position_at_def Centered_def Let_def)

section \<open>Properties of the screen\<close>

lemmas demo_defs = box_hit_def demo_vtable_def demo_widget_def demo_screen_def demo_renderer_def
  demo_input_def

lemma refresh_loop_children:
  "snd (refresh_loop V r box cond i es) =
     map (\<lambda>e. if cond e then refresh_of V r box (e\<lparr>needs_refresh := False\<rparr>) else e) es"
  by (induction es arbitrary: i) (simp_all add: split_beta)

lemma refresh_loop_calls:
  "Refresh k \<in> set (fst (refresh_loop V r box cond i es)) \<longleftrightarrow>
     (i \<le> k \<and> k - i < length es \<and> cond (es ! (k - i)))"
proof (induction es arbitrary: i)
  case Nil
  show ?case by simp
next
  case (Cons e es)
  have "Refresh k \<in> set (fst (refresh_loop V r box cond (Suc i) es)) \<longleftrightarrow>
     (Suc i \<le> k \<and> k - Suc i < length es \<and> cond (es ! (k - Suc i)))"
    by (rule Cons.IH)
  then show ?case
    by (cases "k = i") (auto simp: split_beta nth_Cons' Suc_diff_Suc less_Suc_eq_le)
qed

lemma tick_loop_length:
  "length (fst (snd (tick_loop hit V box input i es sel))) = length es"
  by (induction es arbitrary: i sel) (simp_all add: split_beta Let_def)

lemma tick_loop_no_click:
  "\<not> left (mouse input) \<Longrightarrow> snd (snd (tick_loop hit V box input i es sel)) = sel"
  by (induction es arbitrary: i sel) (simp_all add: split_beta Let_def)

lemma tick_loop_sel:
  "snd (snd (tick_loop hit V box input i es sel)) = sel \<or>
   (\<exists>j. snd (snd (tick_loop hit V box input i es sel)) = Some (i + j) \<and> j < length es \<and>
        left (mouse input) \<and> visible (es ! j) \<and>
        hit (bounding_box (es ! j)) (mouse_pos (mouse input)) \<and> selectable (es ! j))"
proof (induction es arbitrary: i sel)
  case Nil
  show ?case by simp
next
  case (Cons e es)
  let ?clicked = "visible e \<and> hit (bounding_box e) (mouse_pos (mouse input)) \<and> left (mouse input)"
  let ?sel1 = "if ?clicked \<and> selectable e then Some i else sel"
  have step: "snd (snd (tick_loop hit V box input i (e # es) sel)) =
      snd (snd (tick_loop hit V box input (Suc i) es ?sel1))"
    by (auto simp: split_beta Let_def reset_properties_def)
  from Cons.IH [of "Suc i" ?sel1]
  show ?case
  proof
    assume "snd (snd (tick_loop hit V box input (Suc i) es ?sel1)) = ?sel1"
    with step have eq: "snd (snd (tick_loop hit V box input i (e # es) sel)) = ?sel1" by simp
    show ?thesis
    proof (cases "?clicked \<and> selectable e")
      case True
      with eq have "snd (snd (tick_loop hit V box input i (e # es) sel)) = Some (i + 0)" by simp
      moreover have "0 < length (e # es)" by simp
      ultimately show ?thesis using True by (intro disjI2 exI [of _ 0]) simp
    next
      case False
      with eq show ?thesis by auto
    qed
  next
    assume "\<exists>j. snd (snd (tick_loop hit V box input (Suc i) es ?sel1)) = Some (Suc i + j) \<and>
        j < length es \<and> left (mouse input) \<and> visible (es ! j) \<and>
        hit (bounding_box (es ! j)) (mouse_pos (mouse input)) \<and> selectable (es ! j)"
    then obtain j where j: "snd (snd (tick_loop hit V box input (Suc i) es ?sel1)) = Some (Suc i + j)"
        "j < length es" "left (mouse input)" "visible (es ! j)"
        "hit (bounding_box (es ! j)) (mouse_pos (mouse input))" "selectable (es ! j)"
      by blast
    with step have "snd (snd (tick_loop hit V box input i (e # es) sel)) = Some (i + Suc j)" by simp
    with j show ?thesis by (intro disjI2 exI [of _ "Suc j"]) simp
  qed
qed

lemma tick_loop_calls:
  "EventClick k \<in> set (fst (tick_loop hit V box input i es sel)) \<longleftrightarrow>
     (i \<le> k \<and> k - i < length es \<and> left (mouse input) \<and> visible (es ! (k - i)) \<and>
      hit (bounding_box (es ! (k - i))) (mouse_pos (mouse input)))"
proof (induction es arbitrary: i sel)
  case Nil
  show ?case by simp
next
  case (Cons e es)
  have IH: "\<And>sel'. EventClick k \<in> set (fst (tick_loop hit V box input (Suc i) es sel')) \<longleftrightarrow>
     (Suc i \<le> k \<and> k - Suc i < length es \<and> left (mouse input) \<and> visible (es ! (k - Suc i)) \<and>
      hit (bounding_box (es ! (k - Suc i))) (mouse_pos (mouse input)))"
    by (rule Cons.IH)
  show ?case
  proof (cases "k = i")
    case True
    then show ?thesis
      using IH by (auto simp: split_beta Let_def reset_properties_def)
  next
    case False
    then show ?thesis
      using IH
      by (auto simp: split_beta Let_def reset_properties_def nth_Cons' Suc_diff_Suc
          less_Suc_eq_le)
  qed
qed

lemma tick_loop_child:
  "j < length es \<Longrightarrow>
   fst (snd (tick_loop hit V box input i es sel)) ! j =
     (if visible (es ! j) then
        (if hit (bounding_box (es ! j)) (mouse_pos (mouse input)) \<and> left (mouse input)
         then event_click_of V box input ((es ! j)\<lparr>selected := False, hovered := True\<rparr>)
         else (es ! j)\<lparr>selected := False,
                hovered := hit (bounding_box (es ! j)) (mouse_pos (mouse input))\<rparr>)
      else es ! j)"
proof (induction es arbitrary: i sel j)
  case Nil
  then show ?case by simp
next
  case (Cons e es)
  show ?case
  proof (cases j)
    case 0
    then show ?thesis
      by (auto simp: split_beta Let_def reset_properties_def)
  next
    case (Suc j')
    with Cons.prems have "j' < length es" by simp
    from Cons.IH [OF this] Suc show ?thesis
      by (simp_all add: split_beta Let_def)
  qed
qed

lemma Screen_refresh_same:
  assumes "prev_size s = rsize r"
  shows "Screen_refresh V r s =
    (fst (refresh_loop V r \<lparr>origin = \<lparr>xy_x = 0, xy_y = 0\<rparr>, box_size = rsize r\<rparr> needs_refresh 0 (children s)),
     s\<lparr>screen_box := \<lparr>origin = \<lparr>xy_x = 0, xy_y = 0\<rparr>, box_size = rsize r\<rparr>,
       children := map (\<lambda>e. if needs_refresh e
          then refresh_of V r \<lparr>origin = \<lparr>xy_x = 0, xy_y = 0\<rparr>, box_size = rsize r\<rparr> (e\<lparr>needs_refresh := False\<rparr>)
          else e) (children s)\<rparr>)"
  using assms
  by (simp add: Screen_refresh_def Let_def split_beta refresh_loop_children)

lemma Screen_refresh_changed:
  assumes "prev_size s \<noteq> rsize r"
  shows "Screen_refresh V r s =
    (fst (refresh_loop V r \<lparr>origin = \<lparr>xy_x = 0, xy_y = 0\<rparr>, box_size = rsize r\<rparr>
            (\<lambda>e. visible e \<or> needs_refresh e) 0 (children s)),
     s\<lparr>screen_box := \<lparr>origin = \<lparr>xy_x = 0, xy_y = 0\<rparr>, box_size = rsize r\<rparr>,
       prev_size := rsize r,
       children := map (\<lambda>e. if visible e \<or> needs_refresh e
          then refresh_of V r \<lparr>origin = \<lparr>xy_x = 0, xy_y = 0\<rparr>, box_size = rsize r\<rparr> (e\<lparr>needs_refresh := False\<rparr>)
          else e) (children s)\<rparr>)"
  using assms
  by (simp add: Screen_refresh_def Let_def split_beta refresh_loop_children)

lemma Screen_tick_unfold:
  "Screen_tick hit V input s =
     (let sel0 = (if left (mouse input) then None else selected_element s);
          t = tick_loop hit V (screen_box s) input 0 (children s) sel0;
          u = tick_selected V (screen_box s) input (snd (snd t)) (fst (snd t));
          w = update_selection (snd (snd t) \<noteq> None) input
      in (fst t @ fst u @ fst w, s\<lparr>children := snd u, selected_element := snd (snd t)\<rparr>, snd w))"
  by (simp add: Screen_tick_def Let_def split_beta)

lemma tick_selected_no_click: "EventClick k \<notin> set (fst (tick_selected V box input sel es))"
  by (simp add: tick_selected_def split: option.splits)

lemma update_selection_no_click: "EventClick k \<notin> set (fst (update_selection b input))"
  by (simp add: update_selection_def)

text \<open>
  Claim C7. If the container size equals the size cached at the previous
  \<open>Screen::refresh\<close>, exactly the children whose \<open>needs_refresh\<close> flag is set are refreshed
  (with the flag cleared first), whatever their visibility, every other child is left as
  it was (its bounding box in particular), and the cached size stays. If the container
  size changed, exactly the children that are visible or flagged are refreshed, and the
  cached size becomes the new size.
\<close>

theorem Screen_refresh_cached_size:
  "(prev_size s = rsize r \<longrightarrow>
      (case Screen_refresh V r s of
         (calls, s') \<Rightarrow>
           prev_size s' = prev_size s \<and> length (children s') = length (children s) \<and>
           (\<forall>i<length (children s).
              if needs_refresh (children s ! i)
              then Refresh i \<in> set calls \<and>
                   children s' ! i =
                     refresh_of V r (screen_box s') ((children s ! i)\<lparr>needs_refresh := False\<rparr>)
              else Refresh i \<notin> set calls \<and> children s' ! i = children s ! i)))
   \<and> (prev_size s \<noteq> rsize r \<longrightarrow>
      (case Screen_refresh V r s of
         (calls, s') \<Rightarrow>
           prev_size s' = rsize r \<and> length (children s') = length (children s) \<and>
           (\<forall>i<length (children s).
              if visible (children s ! i) \<or> needs_refresh (children s ! i)
              then Refresh i \<in> set calls \<and>
                   children s' ! i =
                     refresh_of V r (screen_box s') ((children s ! i)\<lparr>needs_refresh := False\<rparr>)
              else Refresh i \<notin> set calls \<and> children s' ! i = children s ! i)))"
proof (intro conjI impI)
  assume same: "prev_size s = rsize r"
  show "case Screen_refresh V r s of
         (calls, s') \<Rightarrow>
           prev_size s' = prev_size s \<and> length (children s') = length (children s) \<and>
           (\<forall>i<length (children s).
              if needs_refresh (children s ! i)
              then Refresh i \<in> set calls \<and>
                   children s' ! i =
                     refresh_of V r (screen_box s') ((children s ! i)\<lparr>needs_refresh := False\<rparr>)
              else Refresh i \<notin> set calls \<and> children s' ! i = children s ! i)"
    by (simp add: Screen_refresh_same [OF same] refresh_loop_calls)
next
  assume changed: "prev_size s \<noteq> rsize r"
  show "case Screen_refresh V r s of
         (calls, s') \<Rightarrow>
           prev_size s' = rsize r \<and> length (children s') = length (children s) \<and>
           (\<forall>i<length (children s).
              if visible (children s ! i) \<or> needs_refresh (children s ! i)
              then Refresh i \<in> set calls \<and>
                   children s' ! i =
                     refresh_of V r (screen_box s') ((children s ! i)\<lparr>needs_refresh := False\<rparr>)
              else Refresh i \<notin> set calls \<and> children s' ! i = children s ! i)"
    by (simp add: Screen_refresh_changed [OF changed] refresh_loop_calls)
qed

theorem Screen_refresh_cached_size_witness:
  "prev_size demo_screen = rsize (demo_renderer 100)
   \<and> Refresh 1 \<in> set (fst (Screen_refresh demo_vtable (demo_renderer 100) demo_screen))
   \<and> Refresh 0 \<notin> set (fst (Screen_refresh demo_vtable (demo_renderer 100) demo_screen))
   \<and> children (snd (Screen_refresh demo_vtable (demo_renderer 100) demo_screen)) ! 0
       = children demo_screen ! 0
   \<and> prev_size demo_screen \<noteq> rsize (demo_renderer 200)
   \<and> Refresh 0 \<in> set (fst (Screen_refresh demo_vtable (demo_renderer 200) demo_screen))
   \<and> Refresh 3 \<notin> set (fst (Screen_refresh demo_vtable (demo_renderer 200) demo_screen))
   \<and> prev_size (snd (Screen_refresh demo_vtable (demo_renderer 200) demo_screen))
       = \<lparr>wd = 200, ht = 50\<rparr>"
  using Screen_refresh_cached_size [where s = demo_screen and r = "demo_renderer 100"
      and V = demo_vtable]
    Screen_refresh_cached_size [where s = demo_screen and r = "demo_renderer 200"
      and V = demo_vtable]
  by (simp add: demo_defs split_beta)

text \<open>
  Claim C8. On a tick with a left click the old selection is dropped before the pass
  over the children (the tick does not depend on it), and the selection after the tick
  is a child that is visible, under the mouse and selectable. On a tick without a click
  the selection is kept. On every tick the selected child, after the pass, has its
  \<open>selected\<close> flag set again and then receives \<open>event_input\<close>.
\<close>

theorem Screen_tick_selection:
  "case Screen_tick hit V input s of
     (calls, s', input') \<Rightarrow>
       (left (mouse input) \<longrightarrow>
          Screen_tick hit V input (s\<lparr>selected_element := None\<rparr>) = (calls, s', input') \<and>
          (\<forall>i. selected_element s' = Some i \<longrightarrow>
             i < length (children s) \<and> visible (children s ! i) \<and>
             selectable (children s ! i) \<and>
             hit (bounding_box (children s ! i)) (mouse_pos (mouse input))))
       \<and> (\<not> left (mouse input) \<longrightarrow> selected_element s' = selected_element s)
       \<and> (\<forall>i. selected_element s' = Some i \<and> i < length (children s) \<longrightarrow>
            EventInput i \<in> set calls \<and>
            children s' ! i =
              event_input_of V (screen_box s) input
                ((if visible (children s ! i) then
                    (if hit (bounding_box (children s ! i)) (mouse_pos (mouse input))
                        \<and> left (mouse input)
                     then event_click_of V (screen_box s) input
                            ((children s ! i)\<lparr>selected := False, hovered := True\<rparr>)
                     else (children s ! i)\<lparr>selected := False,
                            hovered := hit (bounding_box (children s ! i)) (mouse_pos (mouse input))\<rparr>)
                  else children s ! i)\<lparr>selected := True\<rparr>))"
proof -
  let ?sel0 = "if left (mouse input) then None else selected_element s"
  let ?t = "tick_loop hit V (screen_box s) input 0 (children s) ?sel0"
  let ?sel = "snd (snd ?t)"
  let ?es = "fst (snd ?t)"
  have A: "left (mouse input) \<longrightarrow>
      Screen_tick hit V input (s\<lparr>selected_element := None\<rparr>) = Screen_tick hit V input s"
    by (simp add: Screen_tick_unfold Let_def)
  have B: "left (mouse input) \<longrightarrow> (\<forall>i. ?sel = Some i \<longrightarrow>
             i < length (children s) \<and> visible (children s ! i) \<and>
             selectable (children s ! i) \<and>
             hit (bounding_box (children s ! i)) (mouse_pos (mouse input)))"
    using tick_loop_sel [of hit V "screen_box s" input 0 "children s" None] by auto
  have C: "\<not> left (mouse input) \<longrightarrow> ?sel = selected_element s"
    using tick_loop_no_click [of input hit V "screen_box s" 0 "children s" "selected_element s"]
    by simp
  have D: "\<forall>i. ?sel = Some i \<and> i < length (children s) \<longrightarrow>
            EventInput i \<in> set (fst (tick_selected V (screen_box s) input ?sel ?es)) \<and>
            snd (tick_selected V (screen_box s) input ?sel ?es) ! i =
              event_input_of V (screen_box s) input ((?es ! i)\<lparr>selected := True\<rparr>)"
    by (simp add: tick_selected_def tick_loop_length)
  have E: "\<forall>i. i < length (children s) \<longrightarrow> ?es ! i =
       (if visible (children s ! i) then
          (if hit (bounding_box (children s ! i)) (mouse_pos (mouse input)) \<and> left (mouse input)
           then event_click_of V (screen_box s) input
                  ((children s ! i)\<lparr>selected := False, hovered := True\<rparr>)
           else (children s ! i)\<lparr>selected := False,
                  hovered := hit (bounding_box (children s ! i)) (mouse_pos (mouse input))\<rparr>)
        else children s ! i)"
    using tick_loop_child by blast
  have F: "Screen_tick hit V input s =
     (fst ?t @ fst (tick_selected V (screen_box s) input ?sel ?es)
        @ fst (update_selection (?sel \<noteq> None) input),
      s\<lparr>children := snd (tick_selected V (screen_box s) input ?sel ?es), selected_element := ?sel\<rparr>,
      snd (update_selection (?sel \<noteq> None) input))"
    by (simp add: Screen_tick_unfold Let_def)
  show ?thesis
    unfolding F using A B C D E unfolding F by (simp del: tick_loop.simps)
qed

theorem Screen_tick_selection_witness:
  "left (mouse (demo_input 5 True))
   \<and> selected_element (fst (snd (Screen_tick box_hit demo_vtable (demo_input 5 True) demo_screen)))
       = Some 0
   \<and> EventInput 0 \<in> set (fst (Screen_tick box_hit demo_vtable (demo_input 5 True) demo_screen))
   \<and> \<not> left (mouse (demo_input 5 False))
   \<and> selected_element (fst (snd (Screen_tick box_hit demo_vtable (demo_input 5 False) demo_screen)))
       = Some 1
   \<and> EventInput 1 \<in> set (fst (Screen_tick box_hit demo_vtable (demo_input 5 False) demo_screen))"
  using Screen_tick_selection [where hit = box_hit and V = demo_vtable
      and input = "demo_input 5 True" and s = demo_screen]
    Screen_tick_selection [where hit = box_hit and V = demo_vtable
      and input = "demo_input 5 False" and s = demo_screen]
  by (simp add: demo_defs split_beta Screen_tick_def tick_selected_def update_selection_def
      reset_properties_def Let_def)

lemma tick_selected_child:
  "i < length es \<Longrightarrow>
   snd (tick_selected V box input sel es) ! i =
     (if sel = Some i then event_input_of V box input ((es ! i)\<lparr>selected := True\<rparr>) else es ! i)"
  by (cases sel) (auto simp: tick_selected_def nth_list_update)

text \<open>
  Claim C10. On a tick with a left click, every visible child whose bounding box contains
  the mouse position receives \<open>event_click\<close>, and no other child does: the call is in the
  trace, and the child after the tick is the result of \<open>event_click\<close> on the child with
  \<open>hovered\<close> set (followed by \<open>event_input\<close> when it is the selection). A child that is
  not selectable receives \<open>event_click\<close> as well, and does not become the selection: after
  the tick it is exactly the result of its \<open>event_click\<close>.
\<close>


theorem Screen_tick_click_dispatch:
  "(EventClick i \<in> set (fst (Screen_tick hit V input s)) \<longleftrightarrow>
      i < length (children s) \<and> left (mouse input) \<and> visible (children s ! i) \<and>
      hit (bounding_box (children s ! i)) (mouse_pos (mouse input)))
   \<and> (left (mouse input) \<and> i < length (children s) \<and> \<not> selectable (children s ! i) \<longrightarrow>
        selected_element (fst (snd (Screen_tick hit V input s))) \<noteq> Some i)
   \<and> (i < length (children s) \<longrightarrow>
        children (fst (snd (Screen_tick hit V input s))) ! i =
          (let c = children s ! i;
               passed =
                 (if visible c then
                    (if hit (bounding_box c) (mouse_pos (mouse input)) \<and> left (mouse input)
                     then event_click_of V (screen_box s) input (c\<lparr>selected := False, hovered := True\<rparr>)
                     else c\<lparr>selected := False,
                            hovered := hit (bounding_box c) (mouse_pos (mouse input))\<rparr>)
                  else c)
           in if selected_element (fst (snd (Screen_tick hit V input s))) = Some i
              then event_input_of V (screen_box s) input (passed\<lparr>selected := True\<rparr>)
              else passed))
   \<and> (left (mouse input) \<and> i < length (children s) \<and> visible (children s ! i) \<and>
       hit (bounding_box (children s ! i)) (mouse_pos (mouse input)) \<and>
       \<not> selectable (children s ! i) \<longrightarrow>
        children (fst (snd (Screen_tick hit V input s))) ! i =
          event_click_of V (screen_box s) input
            ((children s ! i)\<lparr>selected := False, hovered := True\<rparr>))"
proof -
  let ?sel0 = "if left (mouse input) then None else selected_element s"
  let ?t = "tick_loop hit V (screen_box s) input 0 (children s) ?sel0"
  have calls: "EventClick i \<in> set (fst (Screen_tick hit V input s)) \<longleftrightarrow>
      i < length (children s) \<and> left (mouse input) \<and> visible (children s ! i) \<and>
      hit (bounding_box (children s ! i)) (mouse_pos (mouse input))"
    by (simp add: Screen_tick_unfold Let_def tick_loop_calls tick_selected_no_click
        update_selection_no_click)
  have nosel: "left (mouse input) \<and> i < length (children s) \<and> \<not> selectable (children s ! i) \<longrightarrow>
        selected_element (fst (snd (Screen_tick hit V input s))) \<noteq> Some i"
  proof
    assume a: "left (mouse input) \<and> i < length (children s) \<and> \<not> selectable (children s ! i)"
    have "snd (snd (tick_loop hit V (screen_box s) input 0 (children s) None)) \<noteq> Some i"
      using tick_loop_sel [of hit V "screen_box s" input 0 "children s" None] a by auto
    with a show "selected_element (fst (snd (Screen_tick hit V input s))) \<noteq> Some i"
      by (simp add: Screen_tick_unfold Let_def)
  qed
  have sel: "selected_element (fst (snd (Screen_tick hit V input s))) = snd (snd ?t)"
    by (simp add: Screen_tick_unfold Let_def)
  have ch: "children (fst (snd (Screen_tick hit V input s))) =
      snd (tick_selected V (screen_box s) input (snd (snd ?t)) (fst (snd ?t)))"
    by (simp add: Screen_tick_unfold Let_def)
  have state: "i < length (children s) \<longrightarrow>
        children (fst (snd (Screen_tick hit V input s))) ! i =
          (let c = children s ! i;
               passed =
                 (if visible c then
                    (if hit (bounding_box c) (mouse_pos (mouse input)) \<and> left (mouse input)
                     then event_click_of V (screen_box s) input (c\<lparr>selected := False, hovered := True\<rparr>)
                     else c\<lparr>selected := False,
                            hovered := hit (bounding_box c) (mouse_pos (mouse input))\<rparr>)
                  else c)
           in if selected_element (fst (snd (Screen_tick hit V input s))) = Some i
              then event_input_of V (screen_box s) input (passed\<lparr>selected := True\<rparr>)
              else passed)"
  proof
    assume i: "i < length (children s)"
    then have "i < length (fst (snd ?t))" by (simp add: tick_loop_length)
    from tick_selected_child [OF this, of V "screen_box s" input "snd (snd ?t)"]
      tick_loop_child [OF i, of hit V "screen_box s" input 0 ?sel0]
    show "children (fst (snd (Screen_tick hit V input s))) ! i =
          (let c = children s ! i;
               passed =
                 (if visible c then
                    (if hit (bounding_box c) (mouse_pos (mouse input)) \<and> left (mouse input)
                     then event_click_of V (screen_box s) input (c\<lparr>selected := False, hovered := True\<rparr>)
                     else c\<lparr>selected := False,
                            hovered := hit (bounding_box c) (mouse_pos (mouse input))\<rparr>)
                  else c)
           in if selected_element (fst (snd (Screen_tick hit V input s))) = Some i
              then event_input_of V (screen_box s) input (passed\<lparr>selected := True\<rparr>)
              else passed)"
      unfolding sel ch Let_def by (simp del: tick_loop.simps)
  qed
  have unsel: "left (mouse input) \<and> i < length (children s) \<and> visible (children s ! i) \<and>
       hit (bounding_box (children s ! i)) (mouse_pos (mouse input)) \<and>
       \<not> selectable (children s ! i) \<longrightarrow>
        children (fst (snd (Screen_tick hit V input s))) ! i =
          event_click_of V (screen_box s) input
            ((children s ! i)\<lparr>selected := False, hovered := True\<rparr>)"
    using state nosel by (simp add: Let_def)
  from calls nosel state unsel show ?thesis by blast
qed

theorem Screen_tick_click_dispatch_witness:
  "EventClick 2 \<in> set (fst (Screen_tick box_hit demo_vtable (demo_input 5 True) demo_screen))
   \<and> \<not> selectable (children demo_screen ! 2)
   \<and> selected_element (fst (snd (Screen_tick box_hit demo_vtable (demo_input 5 True) demo_screen)))
       \<noteq> Some 2
   \<and> EventClick 1 \<notin> set (fst (Screen_tick box_hit demo_vtable (demo_input 5 True) demo_screen))
   \<and> left (mouse (demo_input 5 True)) \<and> visible (children demo_screen ! 2)
   \<and> box_hit (bounding_box (children demo_screen ! 2)) (mouse_pos (mouse (demo_input 5 True)))
   \<and> children (fst (snd (Screen_tick box_hit click_marking_vtable (demo_input 5 True) demo_screen))) ! 2
       = (demo_widget 0 False True False)\<lparr>hovered := True, needs_refresh := True\<rparr>
   \<and> children (fst (snd (Screen_tick box_hit click_marking_vtable (demo_input 5 True) demo_screen))) ! 1
       = demo_widget 20 False False True"
  using Screen_tick_click_dispatch [where i = 2 and hit = box_hit and V = demo_vtable
      and input = "demo_input 5 True" and s = demo_screen]
    Screen_tick_click_dispatch [where i = 1 and hit = box_hit and V = demo_vtable
      and input = "demo_input 5 True" and s = demo_screen]
    Screen_tick_click_dispatch [where i = 2 and hit = box_hit and V = click_marking_vtable
      and input = "demo_input 5 True" and s = demo_screen]
    Screen_tick_click_dispatch [where i = 1 and hit = box_hit and V = click_marking_vtable
      and input = "demo_input 5 True" and s = demo_screen]
  by (simp add: demo_defs click_marking_vtable_def Let_def)

section \<open>Properties of the card layout\<close>

lemma autoscale_loop_Large:
  "autoscale_loop n avail target Large =
     Some (if target = Large then Large
           else if row_width n Large < avail then Large
           else if target = Field then Field
           else if row_width n Field < avail then Field
           else OtherPlayer)"
  by (cases target) (simp_all add: autoscale_loop.simps)

lemma autoscale_loop_sound:
  "\<exists>s. autoscale_loop n avail target Large = Some s \<and>
       scale_value target \<le> scale_value s \<and>
       (\<forall>l. scale_value s < scale_value l \<longrightarrow> \<not> row_width n l < avail) \<and>
       (s \<noteq> target \<longrightarrow> row_width n s < avail)"
proof -
  have top: "\<And>l. 2 < scale_value l \<Longrightarrow> False"
    and big: "\<And>l. Suc 0 < scale_value l \<Longrightarrow> l = Large"
    and mid: "\<And>l. 0 < scale_value l \<Longrightarrow> l = Field \<or> l = Large"
    subgoal for l by (cases l) simp_all
    subgoal for l by (cases l) simp_all
    subgoal for l by (cases l) simp_all
    done
  show ?thesis
    unfolding autoscale_loop_Large
    by (cases target) (auto dest: top big mid)
qed

lemma layout_cards_fst:
  "fst (layout_cards s x cs) = x + int (length cs) * (wd (CardSize s) + CardGaps s)"
  by (induction cs arbitrary: x) (simp_all add: split_beta algebra_simps)

lemma layout_cards_length: "length (snd (layout_cards s x cs)) = length cs"
  by (induction cs arbitrary: x) (simp_all add: split_beta)

lemma Card_set_scale_scale: "card_scale (Card_set_scale s c) = s"
  by (simp add: Card_set_scale_def)

lemma layout_cards_scale:
  "c \<in> set (snd (layout_cards s x cs)) \<Longrightarrow> card_scale c = s"
  by (induction cs arbitrary: x) (auto simp: split_beta Card_set_scale_scale)

lemma layout_cards_pos:
  "i < length cs \<Longrightarrow>
   pos (snd (layout_cards s x cs) ! i) =
     VCenter (x + int i * (wd (CardSize s) + CardGaps s)) Anchor_Default"
proof (induction cs arbitrary: x i)
  case Nil
  then show ?case by simp
next
  case (Cons c cs)
  show ?case
  proof (cases i)
    case 0
    then show ?thesis by (simp add: split_beta)
  next
    case (Suc j)
    with Cons.prems have "j < length cs" by simp
    from Cons.IH [OF this] Suc show ?thesis
      by (simp add: split_beta algebra_simps)
  qed
qed

lemma Card_refresh_scale: "card_scale (Card_refresh box c) = card_scale c"
  by (simp add: Card_refresh_def Let_def)

lemma row_width_exact:
  assumes "1 \<le> n" "n \<le> 8000000"
  shows "row_width n s = int n * wd (CardSize s) + (int n - 1) * CardGaps s"
proof -
  have w: "0 < wd (CardSize s) \<and> wd (CardSize s) \<le> 240" and g: "0 < CardGaps s \<and> CardGaps s \<le> 20"
    by (cases s; simp)+
  have a: "0 \<le> int n * wd (CardSize s)" using w by simp
  have a': "int n * wd (CardSize s) \<le> 8000000 * 240"
    using assms w by (intro mult_mono) simp_all
  have b: "0 \<le> (int n - 1) * CardGaps s" using assms g by simp
  have b': "(int n - 1) * CardGaps s \<le> 8000000 * 20"
    using assms g by (intro mult_mono) simp_all
  have u1: "usz_wrap (int n * wd (CardSize s)) = int n * wd (CardSize s)"
    using a a' by (simp add: usz_wrap_def)
  have u2: "usz_wrap (int n - 1) = int n - 1"
    using assms by (simp add: usz_wrap_def)
  have u3: "usz_wrap ((int n - 1) * CardGaps s) = (int n - 1) * CardGaps s"
    using b b' by (simp add: usz_wrap_def)
  have u4: "usz_wrap (int n * wd (CardSize s) + (int n - 1) * CardGaps s)
      = int n * wd (CardSize s) + (int n - 1) * CardGaps s"
    using a a' b b' by (simp add: usz_wrap_def)
  have "i32_wrap (int n * wd (CardSize s) + (int n - 1) * CardGaps s)
      = int n * wd (CardSize s) + (int n - 1) * CardGaps s"
    using a a' b b' by (simp add: i32_wrap_def)
  then show ?thesis
    by (simp add: row_width_def u1 u2 u3 u4)
qed

lemma CardGroup_refresh_result:
  assumes "cards g \<noteq> []"
    and "(if autoscale g
          then autoscale_loop (length (cards g))
                 (if max_width g \<noteq> 0 then max_width g else wd (box_size (bounding_box g)))
                 (scale g) Large
          else Some (scale g)) = Some s"
  shows "\<exists>g'. CardGroup_refresh parent_box g = Inr g' \<and>
           length (cards g') = length (cards g) \<and>
           (\<forall>c \<in> set (cards g'). card_scale c = s) \<and>
           wd (box_size (bounding_box g')) =
             int (length (cards g)) * wd (CardSize s) + (int (length (cards g)) - 1) * CardGaps s \<and>
           ht (box_size (bounding_box g')) = ht (CardSize s)"
proof -
  let ?l = "layout_cards s 0 (cards g)"
  let ?sz = "\<lparr>wd = fst ?l - CardGaps s, ht = ht (CardSize s)\<rparr>"
  let ?box = "\<lparr>origin = relative_box (pos g) parent_box ?sz, box_size = ?sz\<rparr>"
  let ?g' = "g\<lparr>bounding_box := ?box, cards := map (Card_refresh ?box) (snd ?l)\<rparr>"
  have r: "CardGroup_refresh parent_box g = Inr ?g'"
    using assms by (simp add: CardGroup_refresh_def Let_def split_beta)
  have len: "length (cards ?g') = length (cards g)"
    by (simp add: layout_cards_length)
  have sc: "\<forall>c \<in> set (cards ?g'). card_scale c = s"
    by (auto simp: Card_refresh_scale layout_cards_scale)
  have w: "wd (box_size (bounding_box ?g')) =
      int (length (cards g)) * wd (CardSize s) + (int (length (cards g)) - 1) * CardGaps s"
    by (simp add: layout_cards_fst algebra_simps)
  have h: "ht (box_size (bounding_box ?g')) = ht (CardSize s)"
    by simp
  from r len sc w h show ?thesis by blast
qed

text \<open>
  Claim C1, as amended. For a non-empty group with autoscaling on, \<open>CardGroup::refresh\<close>
  tries the levels from the largest downwards and stops at the group's own \<open>scale\<close>: it
  selects the largest level above \<open>scale\<close> whose row width is strictly below the
  available width (\<open>max_width\<close> when it is not 0, else the current width of the group's
  box), and \<open>scale\<close> itself, fitting or not, when no level above it fits. All cards get
  the selected level and the box of the group gets the width
  \<open>count * cardWidth + (count - 1) * gap\<close> of that level. The row width the loop
  compares is that same sum (for up to 8000000 cards, where the cast to \<open>i32\<close> changes
  nothing). For 4 cards and a maximum width of 300 the selected level is \<open>OtherPlayer\<close>
  and the width 255 when the group's \<open>scale\<close> is \<open>OtherPlayer\<close>.
\<close>

theorem CardGroup_refresh_autoscale:
  "(cards g \<noteq> [] \<and> autoscale g \<longrightarrow>
      (\<exists>g' s. CardGroup_refresh parent_box g = Inr g' \<and>
          length (cards g') = length (cards g) \<and>
          (\<forall>c \<in> set (cards g'). card_scale c = s) \<and>
          scale_value (scale g) \<le> scale_value s \<and>
          (\<forall>l. scale_value s < scale_value l \<longrightarrow>
               \<not> row_width (length (cards g)) l
                   < (if max_width g \<noteq> 0 then max_width g else wd (box_size (bounding_box g)))) \<and>
          (s \<noteq> scale g \<longrightarrow>
               row_width (length (cards g)) s
                 < (if max_width g \<noteq> 0 then max_width g else wd (box_size (bounding_box g)))) \<and>
          wd (box_size (bounding_box g')) =
            int (length (cards g)) * wd (CardSize s) + (int (length (cards g)) - 1) * CardGaps s))
   \<and> (cards g \<noteq> [] \<and> length (cards g) \<le> 8000000 \<longrightarrow>
        (\<forall>l. row_width (length (cards g)) l =
            int (length (cards g)) * wd (CardSize l) + (int (length (cards g)) - 1) * CardGaps l))
   \<and> (length (cards g) = 4 \<and> autoscale g \<and> max_width g = 300 \<and> scale g = OtherPlayer \<longrightarrow>
        (\<exists>g'. CardGroup_refresh parent_box g = Inr g' \<and>
            (\<forall>c \<in> set (cards g'). card_scale c = OtherPlayer) \<and>
            wd (box_size (bounding_box g')) = 255))"
proof (intro conjI impI)
  let ?avail = "if max_width g \<noteq> 0 then max_width g else wd (box_size (bounding_box g))"
  assume a: "cards g \<noteq> [] \<and> autoscale g"
  obtain s where s: "autoscale_loop (length (cards g)) ?avail (scale g) Large = Some s"
      "scale_value (scale g) \<le> scale_value s"
      "\<forall>l. scale_value s < scale_value l \<longrightarrow> \<not> row_width (length (cards g)) l < ?avail"
      "s \<noteq> scale g \<longrightarrow> row_width (length (cards g)) s < ?avail"
    using autoscale_loop_sound [of "length (cards g)" ?avail "scale g"] by blast
  from a s(1) have "(if autoscale g then autoscale_loop (length (cards g)) ?avail (scale g) Large
      else Some (scale g)) = Some s" by simp
  from CardGroup_refresh_result [OF _ this, of parent_box] a
  obtain g' where g': "CardGroup_refresh parent_box g = Inr g'"
      "length (cards g') = length (cards g)" "\<forall>c \<in> set (cards g'). card_scale c = s"
      "wd (box_size (bounding_box g')) =
         int (length (cards g)) * wd (CardSize s) + (int (length (cards g)) - 1) * CardGaps s"
    by blast
  from g' s(2,3,4)
  show "\<exists>g' s. CardGroup_refresh parent_box g = Inr g' \<and>
          length (cards g') = length (cards g) \<and>
          (\<forall>c \<in> set (cards g'). card_scale c = s) \<and>
          scale_value (scale g) \<le> scale_value s \<and>
          (\<forall>l. scale_value s < scale_value l \<longrightarrow> \<not> row_width (length (cards g)) l < ?avail) \<and>
          (s \<noteq> scale g \<longrightarrow> row_width (length (cards g)) s < ?avail) \<and>
          wd (box_size (bounding_box g')) =
            int (length (cards g)) * wd (CardSize s) + (int (length (cards g)) - 1) * CardGaps s"
    by blast
next
  assume "cards g \<noteq> [] \<and> length (cards g) \<le> 8000000"
  then have "1 \<le> length (cards g)" "length (cards g) \<le> 8000000"
    by (simp_all add: Suc_le_eq)
  then show "\<forall>l. row_width (length (cards g)) l =
            int (length (cards g)) * wd (CardSize l) + (int (length (cards g)) - 1) * CardGaps l"
    using row_width_exact by blast
next
  assume a: "length (cards g) = 4 \<and> autoscale g \<and> max_width g = 300 \<and> scale g = OtherPlayer"
  then have ne: "cards g \<noteq> []" by auto
  have rw: "\<not> row_width 4 Large < 300" "\<not> row_width 4 Field < 300"
    by (simp_all add: row_width_exact)
  from a rw have "(if autoscale g
          then autoscale_loop (length (cards g))
                 (if max_width g \<noteq> 0 then max_width g else wd (box_size (bounding_box g)))
                 (scale g) Large
          else Some (scale g)) = Some OtherPlayer"
    by (simp add: autoscale_loop_Large)
  from CardGroup_refresh_result [OF ne this, of parent_box] a
  show "\<exists>g'. CardGroup_refresh parent_box g = Inr g' \<and>
            (\<forall>c \<in> set (cards g'). card_scale c = OtherPlayer) \<and>
            wd (box_size (bounding_box g')) = 255"
    by auto
qed

theorem CardGroup_refresh_autoscale_witness:
  "cards (demo_group OtherPlayer) \<noteq> [] \<and> autoscale (demo_group OtherPlayer)
   \<and> length (cards (demo_group OtherPlayer)) = 4 \<and> max_width (demo_group OtherPlayer) = 300
   \<and> scale (demo_group OtherPlayer) = OtherPlayer
   \<and> (\<exists>g'. CardGroup_refresh zero_box (demo_group OtherPlayer) = Inr g' \<and>
          (\<forall>c \<in> set (cards g'). card_scale c = OtherPlayer) \<and>
          wd (box_size (bounding_box g')) = 255)"
  using CardGroup_refresh_autoscale [where g = "demo_group OtherPlayer" and parent_box = zero_box]
  by (auto simp: demo_group_def)

text \<open>
  The claim as stated fails for the scale a group is constructed with, \<open>Field\<close>: with 4
  cards and a maximum width of 300 the loop stops at \<open>Field\<close>, all cards get \<open>Field\<close> and
  the box is 510 wide, although the row of level \<open>OtherPlayer\<close>, 255 wide, would fit.
\<close>

theorem CardGroup_refresh_floor_counterexample:
  "\<not> isl (CardGroup_refresh zero_box (demo_group Field))
   \<and> map card_scale (cards (projr (CardGroup_refresh zero_box (demo_group Field))))
       = [Field, Field, Field, Field]
   \<and> wd (box_size (bounding_box (projr (CardGroup_refresh zero_box (demo_group Field))))) = 510
   \<and> row_width 4 OtherPlayer = 255
   \<and> max_width (demo_group Field) = 300"
  by (simp add: CardGroup_refresh_def demo_group_def new_Card_def autoscale_loop_Large
      row_width_exact Card_set_scale_def Card_refresh_def Let_def)

section \<open>Properties of the text edit\<close>

lemma sorted_filter_takeWhile:
  "sorted (map index cl) \<Longrightarrow>
   filter (\<lambda>k. index k < c) cl = takeWhile (\<lambda>k. index k < c) cl"
proof (induction cl)
  case Nil
  show ?case by simp
next
  case (Cons a cl)
  show ?case
  proof (cases "index a < c")
    case True
    with Cons show ?thesis by simp
  next
    case False
    with Cons.prems have "\<forall>k \<in> set cl. \<not> index k < c" by auto
    with False show ?thesis by (simp add: filter_empty_conv)
  qed
qed

lemma sorted_find_eq_dropWhile:
  "sorted (map index cl) \<Longrightarrow> find (\<lambda>k. index k = c) cl = Some k \<Longrightarrow>
   \<exists>zs. dropWhile (\<lambda>k. index k < c) cl = k # zs"
proof (induction cl)
  case Nil
  then show ?case by simp
next
  case (Cons a cl)
  consider "index a < c" | "index a = c" | "c < index a" by linarith
  then show ?case
  proof cases
    case 1
    with Cons show ?thesis by simp
  next
    case 2
    with Cons.prems show ?thesis by simp
  next
    case 3
    with Cons.prems have f: "find (\<lambda>k. index k = c) cl = Some k" by simp
    then have "k \<in> set cl" "index k = c"
      by (auto simp: find_Some_iff)
    with Cons.prems(1) 3 show ?thesis by auto
  qed
qed

lemma find_ge_dropWhile:
  "find (\<lambda>k. c \<le> index k) cl =
     (case dropWhile (\<lambda>k. index k < c) cl of [] \<Rightarrow> None | b # zs \<Rightarrow> Some b)"
  by (induction cl) auto

lemma cursor_offs_at_split:
  assumes "c \<noteq> 0" "c \<noteq> n" "takeWhile (\<lambda>k. index k < c) cl \<noteq> []"
  shows "cursor_offs_at L cl n w c =
     (let prev = last (takeWhile (\<lambda>k. index k < c) cl) in
      case dropWhile (\<lambda>k. index k < c) cl of
        [] \<Rightarrow> Inr (L (xoffs prev) w (c - index prev) (n - index prev))
      | b # zs \<Rightarrow>
          if index b = c then Inr (xoffs b)
          else Inr (L (xoffs prev) (xoffs b) (c - index prev) (index b - index prev)))"
proof -
  let ?P = "\<lambda>k. index k < c"
  let ?ys = "takeWhile ?P cl"
  let ?zs = "dropWhile ?P cl"
  have cl: "cl = ?ys @ ?zs" by simp
  have it: "lower_bound cl c = length ?ys" by (simp add: lower_bound_def)
  have pos: "0 < length ?ys" using assms(3) by simp
  have prev: "cl ! (length ?ys - 1) = last ?ys"
  proof -
    have "cl ! (length ?ys - 1) = (?ys @ ?zs) ! (length ?ys - 1)" by simp
    also have "\<dots> = ?ys ! (length ?ys - 1)" using pos by (simp add: nth_append del: takeWhile_dropWhile_id)
    also have "\<dots> = last ?ys" using assms(3) by (simp add: last_conv_nth)
    finally show ?thesis .
  qed
  show ?thesis
  proof (cases ?zs)
    case Nil
    then have "length ?ys = length cl"
      by (metis append_Nil2 cl)
    with Nil assms pos prev show ?thesis
      by (simp add: cursor_offs_at_def it Let_def del: dropWhile_eq_Nil_conv)
  next
    case (Cons b zs)
    have "length cl = length ?ys + length ?zs"
      by (metis cl length_append)
    with Cons have ne: "length ?ys \<noteq> length cl" by simp
    have "cl ! length ?ys = (?ys @ ?zs) ! length ?ys" by simp
    also have "\<dots> = b" using Cons by (simp add: nth_append del: takeWhile_dropWhile_id)
    finally have b: "cl ! length ?ys = b" .
    from Cons assms pos prev ne b show ?thesis
      by (simp add: cursor_offs_at_def it Let_def)
  qed
qed

lemma takeWhile_nonempty:
  assumes "cl \<noteq> []" "index (hd cl) = 0" "0 < c"
  shows "takeWhile (\<lambda>k. index k < c) cl \<noteq> []"
  using assms by (cases cl) simp_all

lemma cursor_offs_at_sorted:
  assumes srt: "sorted (map index cl)" and ne: "cl \<noteq> []" and first: "index (hd cl) = 0"
    and lo: "0 \<le> c" and hi: "c \<le> n"
  shows "(c = 0 \<longrightarrow> cursor_offs_at L cl n w c = Inr 0)
    \<and> (c \<noteq> 0 \<and> c = n \<longrightarrow> cursor_offs_at L cl n w c = Inr w)
    \<and> (c \<noteq> 0 \<and> c \<noteq> n \<longrightarrow>
         (\<forall>k. find (\<lambda>k. index k = c) cl = Some k \<longrightarrow> cursor_offs_at L cl n w c = Inr (xoffs k)))
    \<and> (c \<noteq> 0 \<and> c \<noteq> n \<and> find (\<lambda>k. index k = c) cl = None \<longrightarrow>
         (let prev = last (filter (\<lambda>k. index k < c) cl);
              i1 = index prev; x1 = xoffs prev;
              i2 = (case find (\<lambda>k. c \<le> index k) cl of Some b \<Rightarrow> index b | None \<Rightarrow> n);
              x2 = (case find (\<lambda>k. c \<le> index k) cl of Some b \<Rightarrow> xoffs b | None \<Rightarrow> w)
          in i1 < c \<and> c < i2 \<and>
             cursor_offs_at L cl n w c = Inr (L x1 x2 (c - i1) (i2 - i1))))"
proof (intro conjI impI allI)
  show "cursor_offs_at L cl n w c = Inr 0" if "c = 0"
    using that by (simp add: cursor_offs_at_def)
next
  show "cursor_offs_at L cl n w c = Inr w" if "c \<noteq> 0 \<and> c = n"
    using that by (simp add: cursor_offs_at_def)
next
  fix k
  assume a: "c \<noteq> 0 \<and> c \<noteq> n" and f: "find (\<lambda>k. index k = c) cl = Some k"
  from a lo have "0 < c" by simp
  then have tw: "takeWhile (\<lambda>k. index k < c) cl \<noteq> []"
    using takeWhile_nonempty [OF ne first] by simp
  from sorted_find_eq_dropWhile [OF srt f]
  obtain zs where dw: "dropWhile (\<lambda>k. index k < c) cl = k # zs" by blast
  from f have "index k = c" by (auto simp: find_Some_iff)
  with a tw dw show "cursor_offs_at L cl n w c = Inr (xoffs k)"
    by (simp add: cursor_offs_at_split Let_def)
next
  assume a: "c \<noteq> 0 \<and> c \<noteq> n \<and> find (\<lambda>k. index k = c) cl = None"
  let ?P = "\<lambda>k. index k < c"
  let ?prev = "last (takeWhile ?P cl)"
  from a lo have "0 < c" by simp
  then have tw: "takeWhile ?P cl \<noteq> []"
    using takeWhile_nonempty [OF ne first] by simp
  then have "?prev \<in> set (takeWhile ?P cl)" by simp
  then have i1: "index ?prev < c" by (rule set_takeWhileD [THEN conjunct2])
  from a have none: "\<forall>k \<in> set cl. index k \<noteq> c" by (simp add: find_None_iff)
  have flt: "filter ?P cl = takeWhile ?P cl" by (rule sorted_filter_takeWhile [OF srt])
  show "let prev = last (filter ?P cl);
              i1 = index prev; x1 = xoffs prev;
              i2 = (case find (\<lambda>k. c \<le> index k) cl of Some b \<Rightarrow> index b | None \<Rightarrow> n);
              x2 = (case find (\<lambda>k. c \<le> index k) cl of Some b \<Rightarrow> xoffs b | None \<Rightarrow> w)
          in i1 < c \<and> c < i2 \<and>
             cursor_offs_at L cl n w c = Inr (L x1 x2 (c - i1) (i2 - i1))"
  proof (cases "dropWhile ?P cl")
    case Nil
    from a hi have "c < n" by simp
    with Nil a tw i1 show ?thesis
      by (simp add: flt find_ge_dropWhile cursor_offs_at_split Let_def
          del: dropWhile_eq_Nil_conv)
  next
    case (Cons b zs)
    have "b \<in> set (dropWhile ?P cl)" using Cons by simp
    then have bin: "b \<in> set cl" by (rule set_dropWhileD)
    have "dropWhile ?P cl \<noteq> []" using Cons by simp
    then have "\<not> ?P (hd (dropWhile ?P cl))" by (rule hd_dropWhile)
    with Cons have "c \<le> index b" by simp
    with none bin have "c < index b" by fastforce
    with Cons a tw i1 show ?thesis
      by (simp add: flt find_ge_dropWhile cursor_offs_at_split Let_def)
  qed
qed


lemma TextEdit_draw_cursor_offs:
  assumes "selected te" "\<not> dirty te" "clusters te \<noteq> []"
    and "1 < no_blink_ticks te \<or> blink_cursor r"
    and "cursor_offs_at L (clusters te) (int (length (textbuf te))) (width (label te)) (cursor te)
           = Inr v"
  shows "\<exists>te'. TextEdit_draw L r te = Inr te' \<and> cursor_offs te' = v"
  using assms by (auto simp: TextEdit_draw_def Let_def)

text \<open>
  Claim C5. For clusters sorted ascending by index with first index 0, text length \<open>n\<close>
  and a cursor \<open>c\<close> between 0 and \<open>n\<close>, the cursor-to-pixel mapping of \<open>TextEdit::draw\<close>
  returns, in this order of precedence: 0 when \<open>c = 0\<close>; the shaped width when \<open>c = n\<close>;
  the offset of the (first) cluster with index \<open>c\<close> when there is one; otherwise the
  interpolation between the last cluster below \<open>c\<close> and the first cluster from \<open>c\<close> on,
  or the virtual cluster \<open>(n, width)\<close> when there is none, with an index range that is
  not empty. Clusters \<open>[(0,0)]\<close>, length 2, width 10 map the cursor 1 to the interpolation
  of 0 and 10 at 1/2, which is 5. \<open>TextEdit::draw\<close> stores the value in \<open>cursor_offs\<close>
  when the edit is selected and the cursor is shown.
\<close>

theorem cursor_to_pixel_mapping:
  "(sorted (map index cl) \<and> cl \<noteq> [] \<and> index (hd cl) = 0 \<and> 0 \<le> c \<and> c \<le> n \<longrightarrow>
      (c = 0 \<longrightarrow> cursor_offs_at L cl n w c = Inr 0)
    \<and> (c \<noteq> 0 \<and> c = n \<longrightarrow> cursor_offs_at L cl n w c = Inr w)
    \<and> (c \<noteq> 0 \<and> c \<noteq> n \<longrightarrow>
         (\<forall>k. find (\<lambda>k. index k = c) cl = Some k \<longrightarrow> cursor_offs_at L cl n w c = Inr (xoffs k)))
    \<and> (c \<noteq> 0 \<and> c \<noteq> n \<and> find (\<lambda>k. index k = c) cl = None \<longrightarrow>
         (let prev = last (filter (\<lambda>k. index k < c) cl);
              i1 = index prev; x1 = xoffs prev;
              i2 = (case find (\<lambda>k. c \<le> index k) cl of Some b \<Rightarrow> index b | None \<Rightarrow> n);
              x2 = (case find (\<lambda>k. c \<le> index k) cl of Some b \<Rightarrow> xoffs b | None \<Rightarrow> w)
          in i1 < c \<and> c < i2 \<and>
             cursor_offs_at L cl n w c = Inr (L x1 x2 (c - i1) (i2 - i1)))))
   \<and> cursor_offs_at L [\<lparr>index = 0, xoffs = 0\<rparr>] 2 10 1 = Inr (L 0 10 1 2)
   \<and> cursor_offs_at lerp_exact [\<lparr>index = 0, xoffs = 0\<rparr>] 2 10 1 = Inr 5
   \<and> (selected te \<and> \<not> dirty te \<and> clusters te \<noteq> [] \<and>
        (1 < no_blink_ticks te \<or> blink_cursor r) \<and>
        cursor_offs_at L (clusters te) (int (length (textbuf te))) (width (label te)) (cursor te)
          = Inr v \<longrightarrow>
        (\<exists>te'. TextEdit_draw L r te = Inr te' \<and> cursor_offs te' = v))"
proof (intro conjI)
  show "sorted (map index cl) \<and> cl \<noteq> [] \<and> index (hd cl) = 0 \<and> 0 \<le> c \<and> c \<le> n \<longrightarrow>
      (c = 0 \<longrightarrow> cursor_offs_at L cl n w c = Inr 0)
    \<and> (c \<noteq> 0 \<and> c = n \<longrightarrow> cursor_offs_at L cl n w c = Inr w)
    \<and> (c \<noteq> 0 \<and> c \<noteq> n \<longrightarrow>
         (\<forall>k. find (\<lambda>k. index k = c) cl = Some k \<longrightarrow> cursor_offs_at L cl n w c = Inr (xoffs k)))
    \<and> (c \<noteq> 0 \<and> c \<noteq> n \<and> find (\<lambda>k. index k = c) cl = None \<longrightarrow>
         (let prev = last (filter (\<lambda>k. index k < c) cl);
              i1 = index prev; x1 = xoffs prev;
              i2 = (case find (\<lambda>k. c \<le> index k) cl of Some b \<Rightarrow> index b | None \<Rightarrow> n);
              x2 = (case find (\<lambda>k. c \<le> index k) cl of Some b \<Rightarrow> xoffs b | None \<Rightarrow> w)
          in i1 < c \<and> c < i2 \<and>
             cursor_offs_at L cl n w c = Inr (L x1 x2 (c - i1) (i2 - i1))))"
    using cursor_offs_at_sorted [of cl c n L w] by blast
next
  show "cursor_offs_at L [\<lparr>index = 0, xoffs = 0\<rparr>] 2 10 1 = Inr (L 0 10 1 2)"
    by (simp add: cursor_offs_at_def lower_bound_def)
next
  show "cursor_offs_at lerp_exact [\<lparr>index = 0, xoffs = 0\<rparr>] 2 10 1 = Inr 5"
    by (simp add: cursor_offs_at_def lower_bound_def lerp_exact_def)
next
  show "selected te \<and> \<not> dirty te \<and> clusters te \<noteq> [] \<and>
        (1 < no_blink_ticks te \<or> blink_cursor r) \<and>
        cursor_offs_at L (clusters te) (int (length (textbuf te))) (width (label te)) (cursor te)
          = Inr v \<longrightarrow>
        (\<exists>te'. TextEdit_draw L r te = Inr te' \<and> cursor_offs te' = v)"
    using TextEdit_draw_cursor_offs by blast
qed

theorem cursor_to_pixel_mapping_witness:
  "sorted (map index (clusters demo_edit)) \<and> clusters demo_edit \<noteq> []
   \<and> index (hd (clusters demo_edit)) = 0
   \<and> cursor_offs_at lerp_exact (clusters demo_edit) 4 40 0 = Inr 0
   \<and> cursor_offs_at lerp_exact (clusters demo_edit) 4 40 4 = Inr 40
   \<and> cursor_offs_at lerp_exact (clusters demo_edit) 4 40 3 = Inr 30
   \<and> cursor_offs_at lerp_exact (clusters demo_edit) 4 40 2 = Inr (lerp_exact 0 30 2 3)
   \<and> lerp_exact 0 30 2 3 = 20
   \<and> (\<exists>te'. TextEdit_draw lerp_exact (demo_renderer 800) (demo_edit\<lparr>cursor := 2\<rparr>) = Inr te'
         \<and> cursor_offs te' = 20)"
  using cursor_to_pixel_mapping [where cl = "clusters demo_edit" and n = 4 and w = 40 and c = 0
      and L = lerp_exact]
    cursor_to_pixel_mapping [where cl = "clusters demo_edit" and n = 4 and w = 40 and c = 4
      and L = lerp_exact]
    cursor_to_pixel_mapping [where cl = "clusters demo_edit" and n = 4 and w = 40 and c = 3
      and L = lerp_exact]
    cursor_to_pixel_mapping [where cl = "clusters demo_edit" and n = 4 and w = 40 and c = 2
      and L = lerp_exact and te = "demo_edit\<lparr>cursor := 2\<rparr>" and r = "demo_renderer 800"
      and v = 20]
  by (simp add: demo_edit_def demo_renderer_def lerp_exact_def cursor_offs_at_def lower_bound_def
      TextEdit_draw_def Let_def)

lemma TextPos_x:
  "xy_x (TextPos parent_box tb t) =
     xy_x (rpos parent_box tb) + (wd (box_size (bounding_box tb)) - wd (shaped_size t)) sdiv 2"
  by (simp add: TextPos_def relative_box_def rbox_def voffset_def Position_Center_def
      Position_at_def Anchor_Default_def relative_def Clamp_def Let_def)

text \<open>
  Claim C6. \<open>TextEdit::event_click\<close> sets the cursor to 0 when the click is left of the
  text's left edge, and to the text length when it is right of the text's right edge
  (which, for a text of non-negative width, is not left of the left edge). The left edge
  is the x coordinate of \<open>TextPos\<close>: the text is centred in the box of the edit. This
  holds for every cluster list.
\<close>

theorem event_click_outside_text:
  "(xy_x (mouse_pos (mouse input)) < xy_x (TextPos parent_box te (label te)) \<longrightarrow>
      cursor (TextEdit_event_click L parent_box input te) = 0)
   \<and> (xy_x (TextPos parent_box te (label te)) \<le> xy_x (mouse_pos (mouse input)) \<and>
       xy_x (TextPos parent_box te (label te)) + width (label te) < xy_x (mouse_pos (mouse input)) \<longrightarrow>
      cursor (TextEdit_event_click L parent_box input te) = int (length (textbuf te)))
   \<and> xy_x (TextPos parent_box te (label te)) =
       xy_x (rpos parent_box te)
       + (wd (box_size (bounding_box te)) - wd (shaped_size (label te))) sdiv 2"
proof -
  have eq: "TextPos parent_box (te\<lparr>no_blink_ticks := 20\<rparr>) (label te) = TextPos parent_box te (label te)"
    by (simp add: TextPos_def rbox_def rpos_def)
  have left_of: "xy_x (mouse_pos (mouse input)) < xy_x (TextPos parent_box te (label te)) \<longrightarrow>
      cursor (TextEdit_event_click L parent_box input te) = 0"
    by (simp add: TextEdit_event_click_def Let_def eq)
  have right_of: "xy_x (TextPos parent_box te (label te)) \<le> xy_x (mouse_pos (mouse input)) \<and>
       xy_x (TextPos parent_box te (label te)) + width (label te) < xy_x (mouse_pos (mouse input)) \<longrightarrow>
      cursor (TextEdit_event_click L parent_box input te) = int (length (textbuf te))"
    by (simp add: TextEdit_event_click_def Let_def eq)
  from left_of right_of TextPos_x [of parent_box te "label te"] show ?thesis
    by blast
qed

theorem event_click_outside_text_witness:
  "xy_x (mouse_pos (mouse (demo_input 100 True))) < xy_x (TextPos demo_parent_box demo_edit (label demo_edit))
   \<and> xy_x (TextPos demo_parent_box demo_edit (label demo_edit)) = 108
   \<and> cursor (TextEdit_event_click lerp_exact demo_parent_box (demo_input 100 True)
               (demo_edit\<lparr>cursor := 2\<rparr>)) = 0
   \<and> xy_x (TextPos demo_parent_box demo_edit (label demo_edit)) + width (label demo_edit)
        < xy_x (mouse_pos (mouse (demo_input 150 True)))
   \<and> cursor (TextEdit_event_click lerp_exact demo_parent_box (demo_input 150 True)
               (demo_edit\<lparr>cursor := 2\<rparr>)) = 4"
  using event_click_outside_text [where input = "demo_input 100 True"
      and parent_box = demo_parent_box and te = "demo_edit\<lparr>cursor := 2\<rparr>" and L = lerp_exact]
    event_click_outside_text [where input = "demo_input 150 True"
      and parent_box = demo_parent_box and te = "demo_edit\<lparr>cursor := 2\<rparr>" and L = lerp_exact]
  by (simp add: demo_edit_def demo_input_def demo_parent_box_def TextPos_x rpos_def
      relative_box_def relative_def Clamp_def Position_at_def Anchor_Default_def Centered_def Let_def)

section \<open>The cursor stays within the text\<close>

lemma length_trim_back: "length (trim_back s) \<le> length s"
  by (simp add: trim_back_def) (metis length_dropWhile_le length_rev)

lemma length_drop_back_until_any: "length (drop_back_until_any stops s) \<le> length s"
  by (simp add: drop_back_until_any_def) (metis length_dropWhile_le length_rev)

lemma word_start_le:
  assumes "0 \<le> c" "c \<le> int (length t)"
  shows "int (length (drop_back_until_any ws (trim_back (take (nat c) t)))) \<le> c"
proof -
  have "length (drop_back_until_any ws (trim_back (take (nat c) t))) \<le> length (take (nat c) t)"
    using length_drop_back_until_any length_trim_back le_trans by blast
  also have "\<dots> = nat c" using assms by simp
  finally show ?thesis using assms by simp
qed

lemma handle_key_cursor_range:
  assumes "0 \<le> cursor te" "cursor te \<le> int (length (textbuf te))"
  shows "\<exists>te'. handle_key clipboard ev te = Inr te' \<and>
           0 \<le> cursor te' \<and> cursor te' \<le> int (length (textbuf te'))"
proof (cases "key ev")
  case SDLK_BACKSPACE
  show ?thesis
  proof (cases "mod_ctrl ev")
    case True
    let ?p = "length (drop_back_until_any ws (trim_back (take (nat (cursor te)) (textbuf te))))"
    have p: "int ?p \<le> cursor te" using assms by (rule word_start_le)
    with assms have "?p \<le> length (textbuf te)" by linarith
    with SDLK_BACKSPACE True assms p show ?thesis
      by (simp add: handle_key_def u32string_erase_def Let_def)
  next
    case False
    with SDLK_BACKSPACE assms show ?thesis
      by (auto simp: handle_key_def u32string_erase_def)
  qed
next
  case SDLK_DELETE
  with assms show ?thesis
    by (auto simp: handle_key_def u32string_erase_def)
next
  case SDLK_V
  with assms show ?thesis
    by (auto simp: handle_key_def Paste_def split: option.splits)
next
  case SDLK_INSERT
  with assms show ?thesis
    by (auto simp: handle_key_def Paste_def split: option.splits)
qed (use assms in \<open>auto simp: handle_key_def\<close>)

lemma kb_loop_cursor_range:
  "0 \<le> cursor te \<Longrightarrow> cursor te \<le> int (length (textbuf te)) \<Longrightarrow>
   \<exists>te'. kb_loop clipboard evs te = Inr te' \<and>
         0 \<le> cursor te' \<and> cursor te' \<le> int (length (textbuf te'))"
proof (induction evs arbitrary: te)
  case Nil
  then show ?case by simp
next
  case (Cons ev evs)
  from Cons.prems
  have "0 \<le> cursor (te\<lparr>no_blink_ticks := 20\<rparr>)"
    and "cursor (te\<lparr>no_blink_ticks := 20\<rparr>) \<le> int (length (textbuf (te\<lparr>no_blink_ticks := 20\<rparr>)))"
    by simp_all
  from handle_key_cursor_range [OF this, of clipboard ev]
  obtain te1 where te1: "handle_key clipboard ev (te\<lparr>no_blink_ticks := 20\<rparr>) = Inr te1"
      "0 \<le> cursor te1" "cursor te1 \<le> int (length (textbuf te1))"
    by blast
  from Cons.IH [OF te1(2,3)] te1(1) show ?case by simp
qed

lemma event_input_cursor_range:
  assumes "0 \<le> cursor te" "cursor te \<le> int (length (textbuf te))"
  shows "\<exists>te'. TextEdit_event_input clipboard input te = Inr te' \<and>
           0 \<le> cursor te' \<and> cursor te' \<le> int (length (textbuf te'))"
proof (cases "text_input input = []")
  case True
  with kb_loop_cursor_range [OF assms] show ?thesis
    by (simp add: TextEdit_event_input_def)
next
  case False
  let ?te1 = "te\<lparr>no_blink_ticks := 20, dirty := True,
      textbuf := take (nat (cursor te)) (textbuf te) @ text_input input
                 @ drop (nat (cursor te)) (textbuf te),
      cursor := cursor te + int (length (text_input input))\<rparr>"
  have "0 \<le> cursor ?te1" "cursor ?te1 \<le> int (length (textbuf ?te1))"
    using assms by simp_all
  from kb_loop_cursor_range [OF this, of clipboard "kb_events input"] False assms
  show ?thesis
    by (simp add: TextEdit_event_input_def u32string_insert_def)
qed

lemma event_click_cursor_range:
  "0 \<le> cursor (TextEdit_event_click L parent_box input te)
   \<and> cursor (TextEdit_event_click L parent_box input te)
       \<le> int (length (textbuf (TextEdit_event_click L parent_box input te)))
   \<and> textbuf (TextEdit_event_click L parent_box input te) = textbuf te"
  by (simp add: TextEdit_event_click_def Let_def)

lemma event_input_text_only:
  assumes "0 \<le> cursor te" "cursor te \<le> int (length (textbuf te))"
    and "text_input input \<noteq> []" "kb_events input = []"
  shows "TextEdit_event_input clipboard input te =
     Inr (te\<lparr>no_blink_ticks := 20, dirty := True,
            textbuf := take (nat (cursor te)) (textbuf te) @ text_input input
                       @ drop (nat (cursor te)) (textbuf te),
            cursor := cursor te + int (length (text_input input))\<rparr>)"
  using assms by (simp add: TextEdit_event_input_def u32string_insert_def)

text \<open>
  Claim C9. \<open>TextEdit::event_click\<close> always returns, with the text unchanged and the
  cursor within it (whatever the cursor was before, whatever the clusters are and
  whatever values the interpolation yields: the loop ends because the cursor grows, and
  the result is clamped). \<open>TextEdit::event_input\<close> on an edit whose cursor lies within
  the text returns without an \<open>insert\<close> or \<open>erase\<close> out of range, for every text input,
  list of key events and clipboard, and leaves the cursor within the new text; with text
  input and no key event, the input is inserted at the cursor and the cursor moves
  behind it.
\<close>

theorem event_handlers_keep_cursor_in_text:
  "0 \<le> cursor (TextEdit_event_click L parent_box input te)
   \<and> cursor (TextEdit_event_click L parent_box input te)
       \<le> int (length (textbuf (TextEdit_event_click L parent_box input te)))
   \<and> textbuf (TextEdit_event_click L parent_box input te) = textbuf te
   \<and> (0 \<le> cursor te \<and> cursor te \<le> int (length (textbuf te)) \<longrightarrow>
        (\<exists>te'. TextEdit_event_input clipboard input te = Inr te' \<and>
           0 \<le> cursor te' \<and> cursor te' \<le> int (length (textbuf te'))))
   \<and> (0 \<le> cursor te \<and> cursor te \<le> int (length (textbuf te)) \<and>
       text_input input \<noteq> [] \<and> kb_events input = [] \<longrightarrow>
        TextEdit_event_input clipboard input te =
          Inr (te\<lparr>no_blink_ticks := 20, dirty := True,
                 textbuf := take (nat (cursor te)) (textbuf te) @ text_input input
                            @ drop (nat (cursor te)) (textbuf te),
                 cursor := cursor te + int (length (text_input input))\<rparr>))"
  using event_click_cursor_range [of L parent_box input te]
    event_input_cursor_range [of te clipboard input]
    event_input_text_only [of te input clipboard]
  by blast

text \<open>
  On the edit holding \<open>ffi!\<close> (clusters at 0 and 3, text from x = 108): a click at
  x = 143 leaves the cursor at 4, and typing \<open>x\<close> at the cursor 3 gives \<open>ffix!\<close> with
  the cursor at 4.
\<close>

theorem event_handlers_keep_cursor_in_text_witness:
  "0 \<le> cursor (demo_edit\<lparr>cursor := 3\<rparr>)
   \<and> cursor (demo_edit\<lparr>cursor := 3\<rparr>) \<le> int (length (textbuf (demo_edit\<lparr>cursor := 3\<rparr>)))
   \<and> text_input ((demo_input 143 True)\<lparr>text_input := [120]\<rparr>) \<noteq> []
   \<and> kb_events ((demo_input 143 True)\<lparr>text_input := [120]\<rparr>) = []
   \<and> cursor (TextEdit_event_click lerp_exact demo_parent_box
               ((demo_input 143 True)\<lparr>text_input := [120]\<rparr>) (demo_edit\<lparr>cursor := 3\<rparr>)) = 4
   \<and> TextEdit_event_input None ((demo_input 143 True)\<lparr>text_input := [120]\<rparr>)
        (demo_edit\<lparr>cursor := 3\<rparr>)
      = Inr (demo_edit\<lparr>no_blink_ticks := 20, dirty := True,
               textbuf := [102, 102, 105, 120, 33], cursor := 4\<rparr>)"
proof -
  let ?c0 = "\<lparr>index = 0, xoffs = 0\<rparr>"
  let ?c1 = "\<lparr>index = 3, xoffs = 30\<rparr>"
  let ?cl = "[?c0, ?c1]"
  let ?inp = "(demo_input 143 True)\<lparr>text_input := [120]\<rparr>"
  let ?te = "demo_edit\<lparr>cursor := 3\<rparr>"
  have x0: "xy_x (TextPos demo_parent_box (?te\<lparr>no_blink_ticks := 20\<rparr>) (label demo_edit)) = 108"
    by (simp add: demo_edit_def demo_parent_box_def TextPos_x rpos_def relative_box_def
        relative_def Clamp_def Position_at_def Anchor_Default_def Centered_def Let_def)
  have s5: "click_loop lerp_exact ?cl 4 143 108 4 5 (Suc (Suc 0)) (Some ?c1) = 4"
    by (subst click_loop.simps) simp
  have s4: "click_loop lerp_exact ?cl 4 143 108 3 5 (Suc 0) (Some ?c1) = 4"
    by (subst click_loop.simps) (simp add: click_xoffs_def s5 Let_def)
  have s3: "click_loop lerp_exact ?cl 4 143 108 2 25 (Suc 0) (Some ?c1) = 4"
    by (subst click_loop.simps) (simp add: click_xoffs_def lerp_exact_def s4 Let_def)
  have s2: "click_loop lerp_exact ?cl 4 143 108 1 35 (Suc 0) (Some ?c0) = 4"
    by (subst click_loop.simps) (simp add: click_xoffs_def lerp_exact_def s3 Let_def)
  have s1: "click_loop lerp_exact ?cl 4 143 108 0 35 0 None = 4"
    by (subst click_loop.simps) (simp add: click_xoffs_def s2 Let_def)
  have click: "cursor (TextEdit_event_click lerp_exact demo_parent_box ?inp ?te) = 4"
    using x0 s1
    by (simp add: TextEdit_event_click_def Let_def demo_input_def demo_edit_def)
  have pre: "0 \<le> cursor ?te \<and> cursor ?te \<le> int (length (textbuf ?te))"
    by (simp add: demo_edit_def)
  have inp: "text_input ?inp \<noteq> [] \<and> kb_events ?inp = []"
    by (simp add: demo_input_def)
  from event_handlers_keep_cursor_in_text [of lerp_exact demo_parent_box ?inp ?te None] pre inp
  have "TextEdit_event_input None ?inp ?te =
          Inr (?te\<lparr>no_blink_ticks := 20, dirty := True,
                 textbuf := take (nat (cursor ?te)) (textbuf ?te) @ text_input ?inp
                            @ drop (nat (cursor ?te)) (textbuf ?te),
                 cursor := cursor ?te + int (length (text_input ?inp))\<rparr>)"
    by blast
  then have typed: "TextEdit_event_input None ?inp ?te
      = Inr (demo_edit\<lparr>no_blink_ticks := 20, dirty := True,
               textbuf := [102, 102, 105, 120, 33], cursor := 4\<rparr>)"
    by (simp add: demo_edit_def demo_input_def)
  from pre inp click typed show ?thesis by blast
qed

end
